theory Spec2Isabelle
  imports Complex_Main "HOL-Library.Char_ord" "HOL-Library.List_Lexorder" "HOL-Library.Multiset"
begin

section \<open>Text helpers of the pre-computation script\<close>

text \<open>
  The pre-computation script reads a workbook sheet as text cells. A cell is a string or
  \<^verbatim>\<open>NA\<close>; \<open>None\<close> stands for \<^verbatim>\<open>NA\<close>. Texts are taken to be ASCII, and the white
  space that \<^verbatim>\<open>str_trim\<close> removes is the ASCII white space: tab, line feed, vertical tab,
  form feed, carriage return and space.
\<close>

type_synonym cell = "string option"

definition is_space :: "char \<Rightarrow> bool" where
  "is_space c = (c \<in> set [CHR '' '', CHR 0x09, CHR 0x0A, CHR 0x0B, CHR 0x0C, CHR 0x0D])"

definition str_trim :: "string \<Rightarrow> string" where
  "str_trim s = rev (dropWhile is_space (rev (dropWhile is_space s)))"

text \<open>\<^verbatim>\<open>str_detect(x, '^p')\<close> for a literal \<open>p\<close>: the string starts with \<open>p\<close>.\<close>

definition starts_with :: "string \<Rightarrow> string \<Rightarrow> bool" where
  "starts_with p s = (take (length p) s = p)"

text \<open>\<^verbatim>\<open>str_detect(x, 'p')\<close> for a literal \<open>p\<close>: \<open>p\<close> occurs somewhere in the string.\<close>

fun str_contains :: "string \<Rightarrow> string \<Rightarrow> bool" where
  "str_contains p [] = (p = [])"
| "str_contains p (c # cs) = (starts_with p (c # cs) \<or> str_contains p cs)"

subsection \<open>Header collapse\<close>

text \<open>
  \<^verbatim>\<open>ifelse(is.na(x) || str_detect(x, '^Unnamed'), '', str_trim(x))\<close>: the placeholder test
  reads the cell as it is, before any trimming.
\<close>

definition header_cell :: "cell \<Rightarrow> string" where
  "header_cell x =
     (case x of
        None \<Rightarrow> []
      | Some s \<Rightarrow> if starts_with ''Unnamed'' s then [] else str_trim s)"

text \<open>The \<^verbatim>\<open>if\<close> chain of \<^verbatim>\<open>collapse_headers\<close> on the two cleaned cells of one column.\<close>

definition collapse_pair :: "string \<Rightarrow> string \<Rightarrow> string" where
  "collapse_pair a b =
     (if a \<noteq> [] \<and> b \<noteq> [] then a @ ''|'' @ b
      else if a \<noteq> [] then a
      else if b \<noteq> [] then b
      else [])"

text \<open>
  \<^verbatim>\<open>collapse_headers\<close>: \<^verbatim>\<open>apply(header_df, 2, ...)\<close> runs over the columns; a column of
  the two header rows is a pair of cells.
\<close>

definition collapse_headers :: "(cell \<times> cell) list \<Rightarrow> string list" where
  "collapse_headers header_df = map (\<lambda>(x, y). collapse_pair (header_cell x) (header_cell y)) header_df"

text \<open>
  \<^verbatim>\<open>duplicated(v)\<close>: the flag of an element says whether an equal element stands before it.
\<close>

fun duplicated_from :: "'a list \<Rightarrow> 'a list \<Rightarrow> bool list" where
  "duplicated_from seen [] = []"
| "duplicated_from seen (x # xs) = (x \<in> set seen) # duplicated_from (x # seen) xs"

definition duplicated :: "'a list \<Rightarrow> bool list" where
  "duplicated xs = duplicated_from [] xs"

text \<open>
  \<^verbatim>\<open>prevalence_df[, !duplicated(colnames(prevalence_df))]\<close>: the physical columns that
  stay, as their positions, and the names they carry.
\<close>

definition kept_positions :: "string list \<Rightarrow> nat list" where
  "kept_positions names = [i \<leftarrow> [0..<length names]. \<not> duplicated names ! i]"

definition kept_names :: "string list \<Rightarrow> string list" where
  "kept_names names = map (\<lambda>i. names ! i) (kept_positions names)"

subsection \<open>Regular expressions of the script\<close>

text \<open>
  The script replaces with two patterns, \<^verbatim>\<open>\.[0-9]+$\<close> and \<^verbatim>\<open> [0-9]+\+$\<close>. A pattern is a
  list of atoms: a literal character, the greedy digit run \<^verbatim>\<open>[0-9]+\<close>, and the anchor \<^verbatim>\<open>$\<close>.
  The matcher is the backtracking one of the regular-expression engine behind \<^verbatim>\<open>stringr\<close>:
  the digit run takes as many digits as it can and gives them back one by one. The anchor
  holds at the end of the input and also just before a line terminator that ends the
  input.
\<close>

datatype atom = Lit char | Digits | Dollar

definition is_digit :: "char \<Rightarrow> bool" where
  "is_digit c = (c \<in> set ''0123456789'')"

definition line_end :: "string \<Rightarrow> bool" where
  "line_end t =
     (t \<in> set [[], [CHR 0x0A], [CHR 0x0B], [CHR 0x0C], [CHR 0x0D], [CHR 0x0D, CHR 0x0A]])"

fun first_some :: "('a \<Rightarrow> 'b option) \<Rightarrow> 'a list \<Rightarrow> 'b option" where
  "first_some f [] = None"
| "first_some f (x # xs) = (case f x of Some y \<Rightarrow> Some y | None \<Rightarrow> first_some f xs)"

text \<open>
  \<open>match_at pat s\<close>: the pattern matches at the front of \<open>s\<close>; the result is what is left
  of \<open>s\<close> behind the match.
\<close>

fun match_at :: "atom list \<Rightarrow> string \<Rightarrow> string option" where
  "match_at [] s = Some s"
| "match_at (Lit c # pat) s =
     (case s of [] \<Rightarrow> None | x # xs \<Rightarrow> if x = c then match_at pat xs else None)"
| "match_at (Digits # pat) s =
     first_some (\<lambda>n. match_at pat (drop n s))
       (rev [1..<Suc (length (takeWhile is_digit s))])"
| "match_at (Dollar # pat) s = (if line_end s then match_at pat s else None)"

text \<open>
  \<^verbatim>\<open>str_replace(x, pat, '')\<close>: the first match, looked for from the left, is cut out; a
  string without a match stays as it is.
\<close>

fun str_replace :: "atom list \<Rightarrow> string \<Rightarrow> string" where
  "str_replace pat [] = (case match_at pat [] of Some r \<Rightarrow> r | None \<Rightarrow> [])"
| "str_replace pat (c # cs) =
     (case match_at pat (c # cs) of Some r \<Rightarrow> r | None \<Rightarrow> c # str_replace pat cs)"

definition repetition_suffix :: "atom list" where
  "repetition_suffix = [Lit CHR ''.'', Digits, Dollar]"

definition age_suffix :: "atom list" where
  "age_suffix = [Lit CHR '' '', Digits, Lit CHR ''+'', Dollar]"

definition clean_register_name :: "string \<Rightarrow> string" where
  "clean_register_name x = str_trim (str_replace age_suffix (str_replace repetition_suffix x))"

section \<open>The script up to its role columns\<close>

subsection \<open>The prevalence table\<close>

text \<open>
  The sheet is read below its two header rows. A data row gives the text of its
  \<^verbatim>\<open>Practice Id\<close> cell and, for a column name, the number that stands in the row's
  cell of that column, which is the first physical column carrying the name, the one
  the de-duplication keeps; an empty cell and a text that is no number read as \<open>None\<close>.
\<close>

record data_row =
  Practice_Id :: cell
  numeric :: "string \<Rightarrow> rat option"

record prevalence_table =
  header_rows :: "(cell \<times> cell) list"
  body :: "data_row list"

text \<open>\<^verbatim>\<open>names(prevalence_df)\<close> after line 75.\<close>

definition col_names :: "prevalence_table \<Rightarrow> string list" where
  "col_names df = kept_names (collapse_headers (header_rows df))"

text \<open>
  The two \<^verbatim>\<open>filter\<close> calls and the \<^verbatim>\<open>mutate\<close> of lines 79 to 82: the rows that stay,
  each with its practice id.
\<close>

definition filter_rows :: "data_row list \<Rightarrow> (string \<times> data_row) list" where
  "filter_rows rows =
     List.map_filter
       (\<lambda>r. case Practice_Id r of
               None \<Rightarrow> None
             | Some pid \<Rightarrow> if pid \<noteq> ''Northern Ireland'' then Some (pid, r) else None)
       rows"

text \<open>
  \<^verbatim>\<open>str_detect(names(prevalence_df), 'subset') & str_detect(names(prevalence_df), 'Prevalence')\<close>
  of line 89.
\<close>

definition subset_cols :: "string list \<Rightarrow> string list" where
  "subset_cols names =
     [cn \<leftarrow> names. str_contains ''subset'' cn \<and> str_contains ''Prevalence'' cn]"

subsection \<open>String literals\<close>

text \<open>
  The parser of R reads a backslash in a string literal together with the character
  behind it. It knows the octal digits and \<^verbatim>\<open>x\<close>, \<^verbatim>\<open>u\<close>, \<^verbatim>\<open>U\<close>, which begin a
  character code, the letters \<^verbatim>\<open>a b f n r t v\<close>, the backslash, the three quotes, the
  space and the line feed. Any other character behind a backslash ends the parse with
  \<^verbatim>\<open>unrecognized escape in character string\<close>. \<open>unrecognized_escape\<close> runs over the text
  between the quotes of a literal and says whether the parser meets such a character;
  whether a character code has the digits it needs is not looked at, no literal of the
  script has one.
\<close>

definition backslash :: char where
  "backslash = CHR 0x5C"

definition recognized_escape :: "char \<Rightarrow> bool" where
  "recognized_escape c =
     (c \<in> set ''01234567xuUabfnrtv''
      \<or> c \<in> set [backslash, CHR 0x22, CHR 0x27, CHR 0x60, CHR '' '', CHR 0x0A])"

fun unrecognized_escape :: "string \<Rightarrow> bool" where
  "unrecognized_escape [] = False"
| "unrecognized_escape [c] = False"
| "unrecognized_escape (c # e # cs) =
     (if c = backslash then \<not> recognized_escape e \<or> unrecognized_escape cs
      else unrecognized_escape (e # cs))"

text \<open>
  The texts between the quotes of the patterns of lines 87 and 88, where the bar stands
  behind one backslash, and of the pattern of line 108, where it stands behind two.
\<close>

definition patient_literal :: string where
  "patient_literal = ''^Number of patients on register'' @ [backslash, CHR ''|'']"

definition prev_literal :: string where
  "prev_literal = ''^Prevalence per 1000 patients using full list'' @ [backslash, CHR ''|'']"

definition split_literal :: string where
  "split_literal = [backslash, backslash, CHR ''|'']"

subsection \<open>The run of the script\<close>

text \<open>
  \<^verbatim>\<open>Rscript\<close> parses and evaluates the top-level expressions of the file one after the
  other and ends the run at the first that raises an error or cannot be parsed. Two
  such places on the way from the header collapse of line 69 to the role columns are
  followed here: the \<^verbatim>\<open>filter\<close> of line 80 raises
  \<^verbatim>\<open>object 'Practice Id' not found\<close> on a sheet without a column of that name, and
  the expressions of lines 87 and 88 hold the literals above. \<open>Inr\<close> is the table with
  which the run goes on behind line 88.
  \<^verbatim>\<open>condition_data\<close>, \<^verbatim>\<open>condition_totals\<close> and \<^verbatim>\<open>practice_info\<close> get their first values
  at lines 116, 117 and 205, and \<^verbatim>\<open>write_json\<close> is called at line 224.
\<close>

datatype error = ObjectNotFound | UnrecognizedEscape

definition precompute :: "prevalence_table \<Rightarrow> error + (string \<times> data_row) list" where
  "precompute df =
     (if ''Practice Id'' \<notin> set (col_names df) then Inl ObjectNotFound
      else if unrecognized_escape patient_literal \<or> unrecognized_escape prev_literal
      then Inl UnrecognizedEscape
      else Inr (filter_rows (body df)))"

section \<open>The dashboard\<close>

subsection \<open>The document\<close>

text \<open>
  The document \<^verbatim>\<open>ni_prevalence_data.json\<close> as the dashboard parses it: the three objects
  \<^verbatim>\<open>practice_info\<close>, \<^verbatim>\<open>condition_totals\<close> and \<^verbatim>\<open>condition_data\<close>. An object is the
  list of its own properties in the order the document writes them; \<open>None\<close> is
  \<^verbatim>\<open>null\<close>. The two rates of a total are called \<^verbatim>\<open>prevalence_per_1000\<close> and
  \<^verbatim>\<open>prevalence_over50_per_1000\<close> in the document as well; here they carry \<open>total_\<close> in
  front.
\<close>

record practice =
  name :: cell
  latitude :: "rat option"
  longitude :: "rat option"

record condition_metric =
  patients :: int
  prevalence_per_1000 :: "rat option"
  prevalence_over50_per_1000 :: "rat option"

record condition_total =
  total_patients :: int
  total_prevalence_per_1000 :: "rat option"
  total_prevalence_over50_per_1000 :: "rat option"

record dataset =
  practice_info :: "(string \<times> practice) list"
  condition_totals :: "(string \<times> condition_total) list"
  condition_data :: "(string \<times> (string \<times> condition_metric) list) list"

subsection \<open>Values of the script\<close>

text \<open>
  The own properties of an object parsed from the document, in the order \<^verbatim>\<open>Object.entries\<close>
  and \<^verbatim>\<open>Object.keys\<close> list them: keys that are array indices first, by value, then the
  other keys as written.
\<close>

definition digits_value :: "string \<Rightarrow> int" where
  "digits_value k = foldl (\<lambda>n c. 10 * n + (of_char c - 48)) 0 k"

definition array_index :: "string \<Rightarrow> int option" where
  "array_index k =
     (if k \<noteq> [] \<and> list_all is_digit k \<and> (k = ''0'' \<or> hd k \<noteq> CHR ''0'')
         \<and> digits_value k < 2 ^ 32 - 1
      then Some (digits_value k) else None)"

definition own_properties :: "(string \<times> 'v) list \<Rightarrow> (string \<times> 'v) list" where
  "own_properties obj =
     sort_key (\<lambda>p. case array_index (fst p) of Some n \<Rightarrow> n | None \<Rightarrow> 0)
       [p \<leftarrow> obj. array_index (fst p) \<noteq> None]
     @ [p \<leftarrow> obj. array_index (fst p) = None]"

datatype js_error = TypeError

text \<open>
  A number of the script is a rational or \<^verbatim>\<open>NaN\<close>. The unary plus of line 59 turns
  \<^verbatim>\<open>null\<close> into zero.
\<close>

datatype number = NaN | Num rat

definition unary_plus :: "rat option \<Rightarrow> number" where
  "unary_plus v = (case v of None \<Rightarrow> Num 0 | Some x \<Rightarrow> Num x)"

definition isNaN :: "number \<Rightarrow> bool" where
  "isNaN x = (x = NaN)"

text \<open>
  \<^verbatim>\<open>d3.descending\<close> on two numbers, and \<^verbatim>\<open>Array.prototype.sort\<close> with a comparator: the
  sort is stable, and with a consistent comparator its result is the one of any stable
  sort; it is written here as insertion from the right.
\<close>

definition d3_descending :: "int \<Rightarrow> int \<Rightarrow> int" where
  "d3_descending a b = (if b < a then - 1 else if b > a then 1 else 0)"

fun insert_by :: "('a \<Rightarrow> 'a \<Rightarrow> int) \<Rightarrow> 'a \<Rightarrow> 'a list \<Rightarrow> 'a list" where
  "insert_by cmp x [] = [x]"
| "insert_by cmp x (y # ys) = (if cmp x y \<le> 0 then x # y # ys else y # insert_by cmp x ys)"

definition array_sort :: "('a \<Rightarrow> 'a \<Rightarrow> int) \<Rightarrow> 'a list \<Rightarrow> 'a list" where
  "array_sort cmp xs = foldr (insert_by cmp) xs []"

text \<open>\<^verbatim>\<open>xs.slice(start, end)\<close>\<close>

definition array_slice :: "'a list \<Rightarrow> int \<Rightarrow> int \<Rightarrow> 'a list" where
  "array_slice xs start end' =
     (let len = int (length xs);
          k = (if start < 0 then max (len + start) 0 else min start len);
          final = (if end' < 0 then max (len + end') 0 else min end' len)
      in take (nat (final - k)) (drop (nat k) xs))"

subsection \<open>Features\<close>

text \<open>
  The fields of a feature are \<^verbatim>\<open>id\<close>, \<^verbatim>\<open>name\<close>, \<^verbatim>\<open>latitude\<close>, \<^verbatim>\<open>longitude\<close>,
  \<^verbatim>\<open>prevalence\<close>, \<^verbatim>\<open>prevalence50\<close> and \<^verbatim>\<open>patients\<close> in the script.
\<close>

record feature =
  feature_id :: string
  feature_name :: cell
  feature_latitude :: number
  feature_longitude :: number
  prevalence :: "rat option"
  prevalence50 :: "rat option"
  feature_patients :: int

text \<open>
  The loop of lines 56 to 71. \<^verbatim>\<open>data.condition_data[condition]\<close> is \<^verbatim>\<open>undefined\<close> for
  a condition the document does not have, and reading \<^verbatim>\<open>[pid]\<close> of it throws. The
  lookups find the own properties of an object: a practice id or a condition that is
  the name of a property every object inherits, such as \<^verbatim>\<open>constructor\<close>, is taken not
  to occur in the document.
\<close>

fun feature_loop ::
  "(string \<times> condition_metric) list option \<Rightarrow> (string \<times> practice) list \<Rightarrow> feature list \<Rightarrow>
   js_error + feature list" where
  "feature_loop cond [] features = Inr features"
| "feature_loop cond ((pid, info) # rest) features =
     (case cond of
        None \<Rightarrow> Inl TypeError
      | Some per_practice \<Rightarrow>
          (case map_of per_practice pid of
             None \<Rightarrow> feature_loop cond rest features
           | Some condData \<Rightarrow>
               let lat = unary_plus (latitude info);
                   lon = unary_plus (longitude info)
               in if isNaN lat \<or> isNaN lon then feature_loop cond rest features
                  else feature_loop cond rest
                         (features @
                          [\<lparr>feature_id = pid,
                            feature_name = name info,
                            feature_latitude = lat,
                            feature_longitude = lon,
                            prevalence = prevalence_per_1000 condData,
                            prevalence50 = prevalence_over50_per_1000 condData,
                            feature_patients = patients condData\<rparr>])))"

definition derive_features :: "dataset \<Rightarrow> string \<Rightarrow> js_error + feature list" where
  "derive_features data condition =
     feature_loop (map_of (condition_data data) condition)
       (own_properties (practice_info data)) []"

subsection \<open>The data join of the table body\<close>

text \<open>
  Lines 110 to 112: \<^verbatim>\<open>tbody.selectAll('tr').data(pageData, d => d.id)\<close>, then
  \<^verbatim>\<open>rows.exit().remove()\<close> and \<^verbatim>\<open>rows.enter().append('tr')\<close>, as D3 joins by key (the
  script needs version 6 or later: its listeners take the event first). A row of the
  table body carries the feature last bound to it, and its key is the id of that
  feature.

  \<open>bind_data\<close> is the pass over the data: \<open>nodes\<close> holds the keys of the rows that no
  datum has taken yet. A datum whose key is among them takes the row of that key, which
  is then an update row; any other datum, also one whose key an earlier datum has
  taken, enters.
\<close>

fun bind_data :: "string list \<Rightarrow> feature list \<Rightarrow> (feature \<times> bool) list" where
  "bind_data nodes [] = []"
| "bind_data nodes (d # ds) =
     (if feature_id d \<in> set nodes
      then (d, True) # bind_data (removeAll (feature_id d) nodes) ds
      else (d, False) # bind_data nodes ds)"

text \<open>
  An entering datum remembers the update row that follows it in the data, by its key;
  \<^verbatim>\<open>append\<close> puts the new row before that row, and at the end of the table body when
  there is none.
\<close>

fun next_update :: "(feature \<times> bool) list \<Rightarrow> string option" where
  "next_update [] = None"
| "next_update ((d, joined) # rest) = (if joined then Some (feature_id d) else next_update rest)"

fun enter_nodes :: "(feature \<times> bool) list \<Rightarrow> (feature \<times> string option) list" where
  "enter_nodes [] = []"
| "enter_nodes ((d, joined) # rest) =
     (if joined then enter_nodes rest else (d, next_update rest) # enter_nodes rest)"

text \<open>
  The rows that stay: of the rows with one key the first is the one a datum can take,
  and a row that no datum has taken is removed. A row that stays keeps its place and
  carries the datum that took it.
\<close>

definition update_nodes :: "feature list \<Rightarrow> (feature \<times> bool) list \<Rightarrow> feature list" where
  "update_nodes nodes bound =
     List.map_filter
       (\<lambda>(n, dup). if dup then None
                    else map_option fst
                           (find (\<lambda>(d, joined). joined \<and> feature_id d = feature_id n) bound))
       (zip nodes (duplicated (map feature_id nodes)))"

text \<open>
  \<^verbatim>\<open>insertBefore\<close>: the rows are marked, \<open>True\<close> for an update row and \<open>False\<close> for a
  new one, so that the row to insert before is found among the update rows.
\<close>

fun insert_before ::
  "feature \<Rightarrow> string option \<Rightarrow> (feature \<times> bool) list \<Rightarrow> (feature \<times> bool) list" where
  "insert_before e None rows = rows @ [(e, False)]"
| "insert_before e (Some k) [] = [(e, False)]"
| "insert_before e (Some k) ((n, old) # rows) =
     (if old \<and> feature_id n = k then (e, False) # (n, old) # rows
      else (n, old) # insert_before e (Some k) rows)"

definition data_join :: "feature list \<Rightarrow> feature list \<Rightarrow> feature list" where
  "data_join nodes data =
     (let bound = bind_data (map feature_id nodes) data
      in map fst
           (foldl (\<lambda>rows (e, following). insert_before e following rows)
              (map (\<lambda>u. (u, True)) (update_nodes nodes bound))
              (enter_nodes bound)))"

subsection \<open>Table, pagination and the event handlers\<close>

text \<open>
  The state of the page: the two variables of the script, the rows standing in the table
  body from top to bottom, each as the feature bound to it, whose fields
  \<^verbatim>\<open>updateTable\<close> writes into its cells, and the controls standing in the pagination
  container. The table body is empty before the script runs. A control carries its
  attribute (\<^verbatim>\<open>disabled\<close> of a button, \<^verbatim>\<open>active\<close> of a page number) and what its click
  handler closes over: the page number \<^verbatim>\<open>p\<close>, and \<^verbatim>\<open>totalPages\<close> for the Next button.
\<close>

datatype control = Prev bool | PageNumber int bool | Next bool int

record dashboard =
  currentTableData :: "feature list"
  currentPage :: int
  tbody :: "feature list"
  pagination :: "control list"
  change_listener :: bool

definition pageSize :: int where
  "pageSize = 10"

text \<open>\<^verbatim>\<open>Math.ceil(currentTableData.length / pageSize)\<close>\<close>

definition totalPages :: "dashboard \<Rightarrow> int" where
  "totalPages d = \<lceil>(of_nat (length (currentTableData d)) :: rat) / of_int pageSize\<rceil>"

definition updateTable :: "dashboard \<Rightarrow> dashboard" where
  "updateTable d =
     (let start = (currentPage d - 1) * pageSize;
          end' = start + pageSize;
          pageData = array_slice (currentTableData d) start end'
      in d\<lparr>tbody := data_join (tbody d) pageData\<rparr>)"

definition renderPagination :: "dashboard \<Rightarrow> dashboard" where
  "renderPagination d =
     (if totalPages d \<le> 1 then d\<lparr>pagination := []\<rparr>
      else d\<lparr>pagination :=
               Prev (currentPage d = 1)
               # map (\<lambda>p. PageNumber p (p = currentPage d)) [1..totalPages d]
               @ [Next (currentPage d = totalPages d) (totalPages d)]\<rparr>)"

text \<open>The click handlers of lines 147 to 153, 160 to 164 and 171 to 177.\<close>

fun on_click :: "control \<Rightarrow> dashboard \<Rightarrow> dashboard" where
  "on_click (Prev disabled) d =
     (if currentPage d > 1
      then renderPagination (updateTable (d\<lparr>currentPage := currentPage d - 1\<rparr>))
      else d)"
| "on_click (PageNumber p active) d =
     renderPagination (updateTable (d\<lparr>currentPage := p\<rparr>))"
| "on_click (Next disabled total_pages) d =
     (if currentPage d < total_pages
      then renderPagination (updateTable (d\<lparr>currentPage := currentPage d + 1\<rparr>))
      else d)"

text \<open>
  \<^verbatim>\<open>updateDashboard\<close>: reading \<^verbatim>\<open>totals.total_patients\<close> throws when the document has no
  totals for the condition, and so may the feature loop; both come before any assignment
  to the state.
\<close>

definition updateDashboard :: "dataset \<Rightarrow> string \<Rightarrow> dashboard \<Rightarrow> js_error + dashboard" where
  "updateDashboard data condition d =
     (case map_of (condition_totals data) condition of
        None \<Rightarrow> Inl TypeError
      | Some totals \<Rightarrow>
          (case derive_features data condition of
             Inl e \<Rightarrow> Inl e
           | Inr features \<Rightarrow>
               Inr (renderPagination (updateTable
                 (d\<lparr>currentTableData :=
                      array_sort (\<lambda>a b. d3_descending (feature_patients a) (feature_patients b))
                        features,
                    currentPage := 1\<rparr>)))))"

text \<open>\<^verbatim>\<open>Object.keys(data.condition_data).sort()\<close>\<close>

definition conditions :: "dataset \<Rightarrow> string list" where
  "conditions data = sort (map fst (own_properties (condition_data data)))"

text \<open>
  The callback of \<^verbatim>\<open>d3.json\<close>, lines 8 to 34. \<^verbatim>\<open>conditions[0]\<close> of an empty array is
  \<^verbatim>\<open>undefined\<close>, which reads the property called \<^verbatim>\<open>undefined\<close>. When the first
  \<^verbatim>\<open>updateDashboard\<close> throws, the change listener of line 31 is never registered.
\<close>

definition initial :: dashboard where
  "initial =
     \<lparr>currentTableData = [], currentPage = 1, tbody = [], pagination = [],
      change_listener = False\<rparr>"

definition load :: "dataset \<Rightarrow> dashboard" where
  "load data =
     (let initialCondition = (case conditions data of [] \<Rightarrow> ''undefined'' | c # _ \<Rightarrow> c)
      in case updateDashboard data initialCondition initial of
           Inl e \<Rightarrow> initial
         | Inr d \<Rightarrow> d\<lparr>change_listener := True\<rparr>)"

text \<open>
  What the user can do: choose an option of the selector, or click a control that stands
  in the pagination container. An event whose control is not on the page does not happen.
\<close>

datatype event = Change string | Click control

fun handle :: "dataset \<Rightarrow> dashboard \<Rightarrow> event \<Rightarrow> dashboard" where
  "handle data d (Change cond) =
     (if change_listener d \<and> cond \<in> set (conditions data)
      then (case updateDashboard data cond d of Inl e \<Rightarrow> d | Inr d' \<Rightarrow> d')
      else d)"
| "handle data d (Click c) = (if c \<in> set (pagination d) then on_click c d else d)"

definition run :: "dataset \<Rightarrow> event list \<Rightarrow> dashboard" where
  "run data events = foldl (handle data) (load data) events"

subsection \<open>The range of the page cursor\<close>

text \<open>
  The cursor is in range when it is at least one and at most the number of pages, or one
  when there is no page. The controls are in range when every page number on the page
  is one of the pages and the Next button closes over the current number of pages.
\<close>

definition cursor_in_range :: "dashboard \<Rightarrow> bool" where
  "cursor_in_range d = (1 \<le> currentPage d \<and> currentPage d \<le> max (totalPages d) 1)"

definition controls_in_range :: "dashboard \<Rightarrow> bool" where
  "controls_in_range d =
     list_all
       (\<lambda>c. case c of
               Prev disabled \<Rightarrow> True
             | PageNumber p active \<Rightarrow> 1 \<le> p \<and> p \<le> totalPages d
             | Next disabled total_pages \<Rightarrow> total_pages = totalPages d)
       (pagination d)"

subsection \<open>What the page shows\<close>

text \<open>
  The page shows the state when the pagination container holds the controls of the
  current page and the table body holds the rows of the current page: with at most one
  page no control, else Prev, disabled on page 1, the page numbers, the current one
  active, and Next, disabled on the last page; and in the table body the ten rows from
  row \<open>10 (p - 1)\<close> on, for the current page \<open>p\<close>, in some order.
\<close>

definition on_screen :: "dashboard \<Rightarrow> bool" where
  "on_screen d =
     (pagination d =
        (if totalPages d \<le> 1 then []
         else Prev (currentPage d = 1)
              # map (\<lambda>p. PageNumber p (p = currentPage d)) [1..totalPages d]
              @ [Next (currentPage d = totalPages d) (totalPages d)])
      \<and> mset (tbody d) =
          mset (take 10 (drop (nat ((currentPage d - 1) * 10)) (currentTableData d))))"

section \<open>Sample inputs\<close>

text \<open>
  Small sheets on which the statements below are run. \<open>data_row_of\<close> builds a row from
  its practice id and the numbers of its cells, by column name.
\<close>

definition data_row_of :: "cell \<Rightarrow> (string \<times> rat) list \<Rightarrow> data_row" where
  "data_row_of pid vals = \<lparr>Practice_Id = pid, numeric = map_of vals\<rparr>"

definition sample_header :: "(cell \<times> cell) list" where
  "sample_header =
     [(Some ''Unnamed: 0'', Some ''Practice Id''),
      (Some ''Unnamed: 1'', Some ''Practice List Size''),
      (Some ''Target population size'', Some ''50+''),
      (Some ''Number of patients on register'', Some ''Stroke''),
      (Some ''Number of patients on register'', Some ''Stroke.1''),
      (Some ''Number of patients on register'', Some ''Diabetes 17+''),
      (Some ''Prevalence per 1000 patients using full list'', Some ''Stroke'')]"

text \<open>
  Two practices, the summary row and a row without a practice id. The second practice
  has no stroke patients.
\<close>

definition sample_table :: prevalence_table where
  "sample_table =
     \<lparr>header_rows = sample_header,
      body =
        [data_row_of (Some ''P1'')
           [(''Practice List Size'', 2000), (''Target population size|50+'', 800),
            (''Number of patients on register|Stroke'', 30),
            (''Number of patients on register|Stroke.1'', 10),
            (''Number of patients on register|Diabetes 17+'', 100),
            (''Prevalence per 1000 patients using full list|Stroke'', 20)],
         data_row_of (Some ''P2'')
           [(''Practice List Size'', 1000), (''Target population size|50+'', 400),
            (''Number of patients on register|Stroke'', 0),
            (''Number of patients on register|Diabetes 17+'', 50)],
         data_row_of (Some ''Northern Ireland'')
           [(''Practice List Size'', 3000), (''Target population size|50+'', 1200),
            (''Number of patients on register|Stroke'', 40),
            (''Number of patients on register|Diabetes 17+'', 150)],
         data_row_of None [(''Number of patients on register|Stroke'', 7)]]\<rparr>"

text \<open>A sheet with one register, for short runs: the rows are given with the call.\<close>

definition stroke_table :: "data_row list \<Rightarrow> prevalence_table" where
  "stroke_table rows =
     \<lparr>header_rows =
        [(None, Some ''Practice Id''), (None, Some ''Practice List Size''),
         (Some ''Number of patients on register'', Some ''Stroke'')],
      body = rows\<rparr>"

text \<open>
  A document with two practices: the second has no entry under the stroke register, and
  both its coordinates are null.
\<close>

definition sample_document :: dataset where
  "sample_document =
     \<lparr>practice_info =
        [(''P1'', \<lparr>name = Some ''Surgery One'', latitude = Some (546 / 10),
                   longitude = Some (- 59 / 10)\<rparr>),
         (''P2'', \<lparr>name = Some ''Surgery Two'', latitude = None, longitude = None\<rparr>)],
      condition_totals =
        [(''Stroke'', \<lparr>total_patients = 40,
                       total_prevalence_per_1000 = Some (133333333333 / 10000000000),
                       total_prevalence_over50_per_1000 = Some (333333333333 / 10000000000)\<rparr>),
         (''Diabetes'', \<lparr>total_patients = 150,
                         total_prevalence_per_1000 = Some 50,
                         total_prevalence_over50_per_1000 = Some 125\<rparr>)],
      condition_data =
        [(''Stroke'',
          [(''P1'', \<lparr>patients = 40, prevalence_per_1000 = Some 20,
                     prevalence_over50_per_1000 = None\<rparr>)]),
         (''Diabetes'',
          [(''P1'', \<lparr>patients = 100, prevalence_per_1000 = None,
                     prevalence_over50_per_1000 = None\<rparr>),
           (''P2'', \<lparr>patients = 50, prevalence_per_1000 = None,
                     prevalence_over50_per_1000 = None\<rparr>)])]\<rparr>"

text \<open>A document with twelve located practices under one condition: two pages.\<close>

definition twelve_ids :: "string list" where
  "twelve_ids = [''A'', ''B'', ''C'', ''D'', ''E'', ''F'', ''G'', ''H'', ''I'', ''J'', ''K'', ''L'']"

definition twelve_document :: dataset where
  "twelve_document =
     \<lparr>practice_info =
        map (\<lambda>k. (k, \<lparr>name = Some k, latitude = Some 54, longitude = Some (- 6)\<rparr>)) twelve_ids,
      condition_totals =
        [(''Stroke'', \<lparr>total_patients = 60, total_prevalence_per_1000 = Some 5,
                       total_prevalence_over50_per_1000 = None\<rparr>)],
      condition_data =
        [(''Stroke'',
          map (\<lambda>k. (k, \<lparr>patients = 5, prevalence_per_1000 = Some 5,
                          prevalence_over50_per_1000 = None\<rparr>)) twelve_ids)]\<rparr>"

text \<open>
  A document with 23 located practices under one condition, three pages, the last of
  three rows.
\<close>

definition twenty_three_ids :: "string list" where
  "twenty_three_ids = map (\<lambda>c. [c]) ''ABCDEFGHIJKLMNOPQRSTUVW''"

definition twenty_three_document :: dataset where
  "twenty_three_document =
     \<lparr>practice_info =
        map (\<lambda>k. (k, \<lparr>name = Some k, latitude = Some 54, longitude = Some (- 6)\<rparr>))
          twenty_three_ids,
      condition_totals =
        [(''Stroke'', \<lparr>total_patients = 115, total_prevalence_per_1000 = Some 5,
                       total_prevalence_over50_per_1000 = None\<rparr>)],
      condition_data =
        [(''Stroke'',
          map (\<lambda>k. (k, \<lparr>patients = 5, prevalence_per_1000 = Some 5,
                          prevalence_over50_per_1000 = None\<rparr>)) twenty_three_ids)]\<rparr>"

text \<open>
  A document with three located practices under two conditions. On the first register
  the practices A, B and C have 50, 50 and 30 patients; on the second they have 10, 20
  and 30.
\<close>

definition two_condition_document :: dataset where
  "two_condition_document =
     \<lparr>practice_info =
        map (\<lambda>k. (k, \<lparr>name = Some k, latitude = Some 54, longitude = Some (- 6)\<rparr>))
          [''A'', ''B'', ''C''],
      condition_totals =
        [(''Asthma'', \<lparr>total_patients = 130, total_prevalence_per_1000 = Some 20,
                       total_prevalence_over50_per_1000 = None\<rparr>),
         (''Stroke'', \<lparr>total_patients = 60, total_prevalence_per_1000 = Some 20,
                       total_prevalence_over50_per_1000 = None\<rparr>)],
      condition_data =
        [(''Asthma'',
          [(''A'', \<lparr>patients = 50, prevalence_per_1000 = Some 30,
                    prevalence_over50_per_1000 = None\<rparr>),
           (''B'', \<lparr>patients = 50, prevalence_per_1000 = Some 20,
                    prevalence_over50_per_1000 = None\<rparr>),
           (''C'', \<lparr>patients = 30, prevalence_per_1000 = Some 10,
                    prevalence_over50_per_1000 = None\<rparr>)]),
         (''Stroke'',
          [(''A'', \<lparr>patients = 10, prevalence_per_1000 = Some 10,
                    prevalence_over50_per_1000 = None\<rparr>),
           (''B'', \<lparr>patients = 20, prevalence_per_1000 = Some 20,
                    prevalence_over50_per_1000 = None\<rparr>),
           (''C'', \<lparr>patients = 30, prevalence_per_1000 = Some 30,
                    prevalence_over50_per_1000 = None\<rparr>)])]\<rparr>"

section \<open>Properties of the text helpers\<close>

lemma first_some_SomeD: "first_some f xs = Some y \<Longrightarrow> \<exists>x\<in>set xs. f x = Some y"
  by (induction xs) (auto split: option.splits)

lemma line_end_last:
  "line_end t \<Longrightarrow> t \<noteq> [] \<Longrightarrow> last t \<in> {CHR 0x0A, CHR 0x0B, CHR 0x0C, CHR 0x0D}"
  by (auto simp: line_end_def)

lemma digit_not_terminator:
  "is_digit c \<Longrightarrow> c \<notin> {CHR 0x0A, CHR 0x0B, CHR 0x0C, CHR 0x0D}"
  by (auto simp: is_digit_def)

lemma match_digits_SomeD:
  assumes "match_at (Digits # pat) s = Some r"
  shows "\<exists>ds t. s = ds @ t \<and> ds \<noteq> [] \<and> (\<forall>c\<in>set ds. is_digit c) \<and> match_at pat t = Some r"
proof -
  from assms have
    "first_some (\<lambda>n. match_at pat (drop n s)) (rev [1..<Suc (length (takeWhile is_digit s))]) = Some r"
    by simp
  from first_some_SomeD[OF this]
  obtain n where n: "n \<in> set (rev [1..<Suc (length (takeWhile is_digit s))])"
    and m: "match_at pat (drop n s) = Some r"
    by blast
  from n have n1: "1 \<le> n" and n2: "n \<le> length (takeWhile is_digit s)" by auto
  have "take n (xs @ ys) = take n xs" if "n \<le> length xs" for xs ys :: string
    using that by simp
  from this[OF n2, of "dropWhile is_digit s"]
  have "take n s = take n (takeWhile is_digit s)"
    by (simp only: takeWhile_dropWhile_id)
  then have "set (take n s) \<subseteq> set (takeWhile is_digit s)"
    by (simp add: set_take_subset)
  then have dig: "\<forall>c\<in>set (take n s). is_digit c"
    by (auto dest: set_takeWhileD)
  have "length s \<ge> n" using n2 length_takeWhile_le[of is_digit s] by linarith
  then have "take n s \<noteq> []" using n1 by auto
  with dig m show ?thesis
    by (intro exI[of _ "take n s"] exI[of _ "drop n s"]) simp
qed

lemma match_digits_greedy:
  assumes "ds \<noteq> []" "\<forall>c\<in>set ds. is_digit c" "t = [] \<or> \<not> is_digit (hd t)"
    and "match_at pat t = Some r"
  shows "match_at (Digits # pat) (ds @ t) = Some r"
proof -
  have tw: "takeWhile is_digit (ds @ t) = ds"
    using assms(2,3) by (cases t) (auto simp: takeWhile_append2)
  obtain k where k: "length ds = Suc k" using assms(1) by (cases ds) auto
  have "rev [1..<Suc (length ds)] = length ds # rev [1..<length ds]"
    using k by simp
  then show ?thesis using assms(4) tw by simp
qed

lemma str_replace_here: "match_at pat v = Some r \<Longrightarrow> str_replace pat v = r"
  by (cases v) auto

lemma str_replace_skip:
  "(\<And>u1 u2. u = u1 @ u2 \<Longrightarrow> u2 \<noteq> [] \<Longrightarrow> match_at pat (u2 @ v) = None) \<Longrightarrow>
   str_replace pat (u @ v) = u @ str_replace pat v"
proof (induction u)
  case Nil
  then show ?case by simp
next
  case (Cons c u)
  have "match_at pat ((c # u) @ v) = None"
    using Cons.prems[of "[]" "c # u"] by simp
  moreover have "str_replace pat (u @ v) = u @ str_replace pat v"
  proof (rule Cons.IH)
    fix u1 u2 assume "u = u1 @ u2" "u2 \<noteq> []"
    then show "match_at pat (u2 @ v) = None"
      using Cons.prems[of "c # u1" u2] by simp
  qed
  ultimately show ?case by simp
qed

lemma str_replace_none:
  "(\<And>u1 u2. s = u1 @ u2 \<Longrightarrow> match_at pat u2 = None) \<Longrightarrow> str_replace pat s = s"
proof (induction s)
  case Nil
  then show ?case using Nil[of "[]" "[]"] by simp
next
  case (Cons c s)
  have "match_at pat (c # s) = None" using Cons.prems[of "[]" "c # s"] by simp
  moreover have "str_replace pat s = s"
  proof (rule Cons.IH)
    fix u1 u2 assume "s = u1 @ u2"
    then show "match_at pat u2 = None" using Cons.prems[of "c # u1" u2] by simp
  qed
  ultimately show ?case by simp
qed

lemma repetition_match_SomeD:
  assumes "match_at repetition_suffix s = Some r"
  shows "\<exists>ds. s = CHR ''.'' # ds @ r \<and> ds \<noteq> [] \<and> (\<forall>c\<in>set ds. is_digit c) \<and> line_end r"
proof -
  from assms obtain xs where s: "s = CHR ''.'' # xs"
    and m: "match_at [Digits, Dollar] xs = Some r"
    by (auto simp: repetition_suffix_def split: list.splits if_splits)
  from match_digits_SomeD[OF m] obtain ds t where
    "xs = ds @ t" "ds \<noteq> []" "\<forall>c\<in>set ds. is_digit c" "match_at [Dollar] t = Some r"
    by blast
  then show ?thesis using s by (auto split: if_splits)
qed

lemma age_match_SomeD:
  assumes "match_at age_suffix s = Some r"
  shows "\<exists>ds. s = CHR '' '' # ds @ CHR ''+'' # r \<and> ds \<noteq> [] \<and> (\<forall>c\<in>set ds. is_digit c)
            \<and> line_end r"
proof -
  from assms obtain xs where s: "s = CHR '' '' # xs"
    and m: "match_at [Digits, Lit CHR ''+'', Dollar] xs = Some r"
    by (auto simp: age_suffix_def split: list.splits if_splits)
  from match_digits_SomeD[OF m] obtain ds t where
    "xs = ds @ t" "ds \<noteq> []" "\<forall>c\<in>set ds. is_digit c"
    "match_at [Lit CHR ''+'', Dollar] t = Some r"
    by blast
  then show ?thesis using s by (auto split: list.splits if_splits)
qed

lemma match_dollar_Nil: "match_at [Dollar] [] = Some []"
  by (simp add: line_end_def)

lemma repetition_here:
  assumes "ds \<noteq> []" "\<forall>c\<in>set ds. is_digit c"
  shows "match_at repetition_suffix (CHR ''.'' # ds) = Some []"
proof -
  have "match_at (Digits # [Dollar]) (ds @ []) = Some []"
    by (rule match_digits_greedy[OF assms _ match_dollar_Nil]) simp
  then have "match_at [Digits, Dollar] ds = Some []"
    by (simp only: append_Nil2)
  then show ?thesis
    by (simp add: repetition_suffix_def del: match_at.simps(3))
qed

lemma no_line_end_after:
  assumes "line_end r" "w = v @ r" "w \<noteq> []" "last w \<notin> {CHR 0x0A, CHR 0x0B, CHR 0x0C, CHR 0x0D}"
  shows "r = []"
proof (rule ccontr)
  assume ne: "r \<noteq> []"
  then have "last w = last r" using assms(2) by simp
  with line_end_last[OF assms(1) ne] assms(4) show False by simp
qed

lemma strip_repetition:
  assumes "ds \<noteq> []" "\<forall>c\<in>set ds. is_digit c"
  shows "str_replace repetition_suffix (p @ ''.'' @ ds) = p"
proof -
  have lastd: "last (w @ CHR ''.'' # ds) \<notin> {CHR 0x0A, CHR 0x0B, CHR 0x0C, CHR 0x0D}" for w
  proof -
    have "last (w @ CHR ''.'' # ds) = last ds" using assms(1) by simp
    moreover have "is_digit (last ds)" using assms by simp
    ultimately show ?thesis using digit_not_terminator[of "last ds"] by simp
  qed
  have "str_replace repetition_suffix (p @ (CHR ''.'' # ds)) =
        p @ str_replace repetition_suffix (CHR ''.'' # ds)"
  proof (rule str_replace_skip)
    fix u1 u2 assume "p = u1 @ u2" and ne: "u2 \<noteq> []"
    show "match_at repetition_suffix (u2 @ CHR ''.'' # ds) = None"
    proof (rule ccontr)
      assume "match_at repetition_suffix (u2 @ CHR ''.'' # ds) \<noteq> None"
      then obtain r where "match_at repetition_suffix (u2 @ CHR ''.'' # ds) = Some r" by blast
      from repetition_match_SomeD[OF this] obtain es where
        eq: "u2 @ CHR ''.'' # ds = CHR ''.'' # es @ r" and es: "\<forall>c\<in>set es. is_digit c"
        and le: "line_end r" by blast
      have "u2 @ CHR ''.'' # ds = (CHR ''.'' # es) @ r" using eq by simp
      from no_line_end_after[OF le this _ lastd] have r: "r = []" by simp
      obtain c u2' where u2: "u2 = c # u2'" using ne by (cases u2) blast+
      from eq r u2 have "u2' @ CHR ''.'' # ds = es" by simp
      then have "CHR ''.'' \<in> set es" by (metis in_set_conv_decomp)
      with es have "is_digit CHR ''.''" by blast
      then show False by (simp add: is_digit_def)
    qed
  qed
  moreover have "str_replace repetition_suffix (CHR ''.'' # ds) = []"
    by (rule str_replace_here[OF repetition_here[OF assms]])
  ultimately show ?thesis by simp
qed

lemma age_here:
  assumes "ds \<noteq> []" "\<forall>c\<in>set ds. is_digit c"
  shows "match_at age_suffix (CHR '' '' # ds @ ''+'') = Some []"
proof -
  have plus: "match_at [Lit CHR ''+'', Dollar] ''+'' = Some []"
    by (simp add: line_end_def)
  have "match_at (Digits # [Lit CHR ''+'', Dollar]) (ds @ ''+'') = Some []"
    by (rule match_digits_greedy[OF assms _ plus]) (simp add: is_digit_def)
  then show ?thesis
    by (simp add: age_suffix_def del: match_at.simps(3))
qed

lemma strip_age:
  assumes "ds \<noteq> []" "\<forall>c\<in>set ds. is_digit c"
  shows "str_replace age_suffix (p @ '' '' @ ds @ ''+'') = p"
proof -
  have lastd: "last (w @ CHR '' '' # ds @ ''+'') \<notin> {CHR 0x0A, CHR 0x0B, CHR 0x0C, CHR 0x0D}" for w
    by simp
  have "str_replace age_suffix (p @ (CHR '' '' # ds @ ''+'')) =
        p @ str_replace age_suffix (CHR '' '' # ds @ ''+'')"
  proof (rule str_replace_skip)
    fix u1 u2 assume "p = u1 @ u2" and ne: "u2 \<noteq> []"
    show "match_at age_suffix (u2 @ CHR '' '' # ds @ ''+'') = None"
    proof (rule ccontr)
      assume "match_at age_suffix (u2 @ CHR '' '' # ds @ ''+'') \<noteq> None"
      then obtain r where "match_at age_suffix (u2 @ CHR '' '' # ds @ ''+'') = Some r" by blast
      from age_match_SomeD[OF this] obtain es where
        eq: "u2 @ CHR '' '' # ds @ ''+'' = CHR '' '' # es @ CHR ''+'' # r"
        and es: "\<forall>c\<in>set es. is_digit c" and le: "line_end r" by blast
      have "u2 @ CHR '' '' # ds @ ''+'' = (CHR '' '' # es @ ''+'') @ r" using eq by simp
      from no_line_end_after[OF le this _ lastd] have r: "r = []" by simp
      obtain c u2' where u2: "u2 = c # u2'" using ne by (cases u2) blast+
      from eq r u2 have "(u2' @ CHR '' '' # ds) @ ''+'' = es @ ''+''" by simp
      then have "u2' @ CHR '' '' # ds = es" by (simp only: append_same_eq)
      then have "CHR '' '' \<in> set es" by (metis in_set_conv_decomp)
      with es have "is_digit CHR '' ''" by blast
      then show False by (simp add: is_digit_def)
    qed
  qed
  moreover have "str_replace age_suffix (CHR '' '' # ds @ ''+'') = []"
    by (rule str_replace_here[OF age_here[OF assms]])
  ultimately show ?thesis by simp
qed

lemma repetition_keeps_plus: "str_replace repetition_suffix (q @ ''+'') = q @ ''+''"
proof (rule str_replace_none)
  fix u1 u2 assume split: "q @ ''+'' = u1 @ u2"
  show "match_at repetition_suffix u2 = None"
  proof (rule ccontr)
    assume "match_at repetition_suffix u2 \<noteq> None"
    then obtain r where "match_at repetition_suffix u2 = Some r" by blast
    from repetition_match_SomeD[OF this] obtain es where
      eq: "u2 = CHR ''.'' # es @ r" and ne: "es \<noteq> []"
      and es: "\<forall>c\<in>set es. is_digit c" and le: "line_end r" by blast
    have "u2 \<noteq> []" using eq by simp
    then have "last u2 = last (u1 @ u2)" by simp
    also have "\<dots> = last (q @ ''+'')" by (simp only: split)
    also have "\<dots> = CHR ''+''" by simp
    finally have lu: "last u2 = CHR ''+''" .
    have "u2 = (CHR ''.'' # es) @ r" using eq by simp
    from no_line_end_after[OF le this \<open>u2 \<noteq> []\<close>] lu have r: "r = []" by simp
    have "last u2 = last es" using eq r ne by simp
    moreover have "is_digit (last es)" using es ne by simp
    ultimately have "is_digit CHR ''+''" using lu by simp
    then show False by (simp add: is_digit_def)
  qed
qed


text \<open>
  Claim C4. The register name is cleaned in three steps: a final \<^verbatim>\<open>.N\<close> is cut off the
  string as it comes, then a final age band \<^verbatim>\<open> NN+\<close>, then the white space around the
  rest. So a name that ends in \<^verbatim>\<open>.N\<close> loses it, a name that ends in an age band loses it,
  a name that ends in an age band followed by \<^verbatim>\<open>.N\<close> loses both, and \<^verbatim>\<open>Stroke.2\<close> and
  \<^verbatim>\<open>Stroke 17+\<close> both become \<^verbatim>\<open>Stroke\<close>.
\<close>

theorem clean_register_name_suffixes:
  assumes "ds \<noteq> []" "\<forall>c\<in>set ds. is_digit c" "es \<noteq> []" "\<forall>c\<in>set es. is_digit c"
  shows "str_replace repetition_suffix (p @ ''.'' @ ds) = p
       \<and> str_replace age_suffix (p @ '' '' @ es @ ''+'') = p
       \<and> clean_register_name (p @ ''.'' @ ds) = str_trim (str_replace age_suffix p)
       \<and> clean_register_name (p @ '' '' @ es @ ''+'') = str_trim p
       \<and> clean_register_name (p @ '' '' @ es @ ''+'' @ ''.'' @ ds) = str_trim p
       \<and> clean_register_name ''Stroke.2'' = ''Stroke''
       \<and> clean_register_name ''Stroke 17+'' = ''Stroke''"
proof -
  have rep: "str_replace repetition_suffix (w @ ''.'' @ ds) = w" for w
    by (rule strip_repetition[OF assms(1,2)])
  have age: "str_replace age_suffix (p @ '' '' @ es @ ''+'') = p"
    by (rule strip_age[OF assms(3,4)])
  have keep: "str_replace repetition_suffix (p @ '' '' @ es @ ''+'') = p @ '' '' @ es @ ''+''"
    using repetition_keeps_plus[of "p @ '' '' @ es"] by simp
  have c1: "clean_register_name (p @ ''.'' @ ds) = str_trim (str_replace age_suffix p)"
    by (simp only: clean_register_name_def rep)
  have c2: "clean_register_name (p @ '' '' @ es @ ''+'') = str_trim p"
    by (simp only: clean_register_name_def keep age)
  have "clean_register_name ((p @ '' '' @ es @ ''+'') @ ''.'' @ ds) = str_trim p"
    by (simp only: clean_register_name_def rep age)
  then have c3: "clean_register_name (p @ '' '' @ es @ ''+'' @ ''.'' @ ds) = str_trim p"
    by simp
  have e1: "clean_register_name ''Stroke.2'' = ''Stroke''"
    by code_simp
  have e2: "clean_register_name ''Stroke 17+'' = ''Stroke''"
    by code_simp
  from rep[of p] age c1 c2 c3 e1 e2 show ?thesis by blast
qed

theorem clean_register_name_suffixes_witness:
  "list_all is_digit ''2'' \<and> list_all is_digit ''17''
   \<and> str_replace repetition_suffix (''Stroke'' @ ''.'' @ ''2'') = ''Stroke''
   \<and> clean_register_name (''Stroke'' @ '' '' @ ''17'' @ ''+'' @ ''.'' @ ''2'') = ''Stroke''"
proof -
  have h: "''2'' \<noteq> []" "\<forall>c\<in>set ''2''. is_digit c" "''17'' \<noteq> []" "\<forall>c\<in>set ''17''. is_digit c"
    by (simp_all add: is_digit_def)
  have t: "str_trim ''Stroke'' = ''Stroke''"
    by (simp add: str_trim_def is_space_def)
  from clean_register_name_suffixes[OF h, of "''Stroke''"] h t show ?thesis
    by simp
qed

section \<open>Properties of the header collapse\<close>

lemma duplicated_from_length: "length (duplicated_from seen xs) = length xs"
  by (induction xs arbitrary: seen) simp_all

lemma duplicated_from_nth:
  "i < length xs \<Longrightarrow> duplicated_from seen xs ! i = (xs ! i \<in> set seen \<union> set (take i xs))"
proof (induction xs arbitrary: seen i)
  case Nil
  then show ?case by simp
next
  case (Cons x xs)
  show ?case
  proof (cases i)
    case 0
    then show ?thesis by simp
  next
    case (Suc j)
    with Cons.prems have "j < length xs" by simp
    from Cons.IH[OF this, of "x # seen"] Suc show ?thesis by auto
  qed
qed

lemma kept_positions_first:
  "kept_positions names = [i \<leftarrow> [0..<length names]. names ! i \<notin> set (take i names)]"
  unfolding kept_positions_def duplicated_def
  by (rule filter_cong) (simp_all add: duplicated_from_nth)

lemma kept_names_snoc:
  "kept_names (xs @ [x]) = kept_names xs @ (if x \<in> set xs then [] else [x])"
proof -
  have "[i \<leftarrow> [0..<length xs]. (xs @ [x]) ! i \<notin> set (take i (xs @ [x]))] =
        [i \<leftarrow> [0..<length xs]. xs ! i \<notin> set (take i xs)]"
    by (rule filter_cong) (simp_all add: nth_append)
  moreover have "map (\<lambda>i. (xs @ [x]) ! i) [i \<leftarrow> [0..<length xs]. xs ! i \<notin> set (take i xs)] =
        map (\<lambda>i. xs ! i) [i \<leftarrow> [0..<length xs]. xs ! i \<notin> set (take i xs)]"
    by (rule map_cong) (simp_all add: nth_append)
  ultimately show ?thesis
    by (simp add: kept_names_def kept_positions_first)
qed

lemma kept_names_Nil: "kept_names [] = []"
  by (simp add: kept_names_def kept_positions_first)

lemma set_kept_names: "set (kept_names names) = set names"
  by (induction names rule: rev_induct) (auto simp: kept_names_Nil kept_names_snoc)

lemma distinct_kept_names: "distinct (kept_names names)"
  by (induction names rule: rev_induct) (auto simp: kept_names_Nil kept_names_snoc set_kept_names)


lemma starts_with_Nil: "p \<noteq> [] \<Longrightarrow> \<not> starts_with p []"
  by (simp add: starts_with_def)

lemma no_subset_role_for_empty_key: "[] \<notin> set (subset_cols ns)"
  by (simp add: subset_cols_def)

text \<open>
  Claim C3, as the script has it. The canonical key of a column is \<open>a|b\<close>, \<open>a\<close>, \<open>b\<close> or
  the empty string, by which of the two cleaned header cells are empty. Of the columns
  with one key the first physical column is kept and the later ones are dropped. The
  empty key is a key like any other: the first column whose key is empty is kept as well.
  The empty name passes no test for a prefix that is not empty, and it is none of the
  subset columns of line 89.
\<close>

theorem collapse_headers_first_column_kept:
  "(\<forall>i<length header_df.
      collapse_headers header_df ! i =
        collapse_pair (header_cell (fst (header_df ! i))) (header_cell (snd (header_df ! i))))
   \<and> header_cell None = []
   \<and> header_cell (Some s) = (if starts_with ''Unnamed'' s then [] else str_trim s)
   \<and> (a \<noteq> [] \<and> b \<noteq> [] \<longrightarrow> collapse_pair a b = a @ ''|'' @ b)
   \<and> (a \<noteq> [] \<and> b = [] \<longrightarrow> collapse_pair a b = a)
   \<and> (a = [] \<and> b \<noteq> [] \<longrightarrow> collapse_pair a b = b)
   \<and> (a = [] \<and> b = [] \<longrightarrow> collapse_pair a b = [])
   \<and> kept_positions names = [i \<leftarrow> [0..<length names]. names ! i \<notin> set (take i names)]
   \<and> distinct (kept_names names)
   \<and> set (kept_names names) = set names
   \<and> ([] \<in> set names \<longrightarrow> [] \<in> set (kept_names names))
   \<and> (p \<noteq> [] \<longrightarrow> \<not> starts_with p []) \<and> [] \<notin> set (subset_cols ns)"
proof -
  have "\<forall>i<length header_df.
      collapse_headers header_df ! i =
        collapse_pair (header_cell (fst (header_df ! i))) (header_cell (snd (header_df ! i)))"
    by (simp add: collapse_headers_def case_prod_beta)
  moreover have "header_cell None = []"
    by (simp add: header_cell_def)
  moreover have "header_cell (Some s) = (if starts_with ''Unnamed'' s then [] else str_trim s)"
    by (simp add: header_cell_def)
  moreover have "(a \<noteq> [] \<and> b \<noteq> [] \<longrightarrow> collapse_pair a b = a @ ''|'' @ b)
     \<and> (a \<noteq> [] \<and> b = [] \<longrightarrow> collapse_pair a b = a)
     \<and> (a = [] \<and> b \<noteq> [] \<longrightarrow> collapse_pair a b = b)
     \<and> (a = [] \<and> b = [] \<longrightarrow> collapse_pair a b = [])"
    by (simp add: collapse_pair_def)
  moreover have "p \<noteq> [] \<longrightarrow> \<not> starts_with p []"
    by (simp add: starts_with_Nil)
  moreover note kept_positions_first[of names] distinct_kept_names[of names]
    set_kept_names[of names] no_subset_role_for_empty_key[of ns]
  ultimately show ?thesis by blast
qed

theorem collapse_headers_first_column_kept_witness:
  "collapse_headers [(Some ''Unnamed: 0'', Some '' Practice Id ''), (None, None), (Some ''Rate'', Some ''Stroke''), (None, Some ''Practice Id'')]
     = [''Practice Id'', [], ''Rate|Stroke'', ''Practice Id'']
   \<and> kept_positions [''Practice Id'', [], ''Rate|Stroke'', ''Practice Id''] = [0, 1, 2]
   \<and> [] \<in> set (kept_names [''Practice Id'', [], ''Rate|Stroke'', ''Practice Id''])"
proof -
  have c: "collapse_headers [(Some ''Unnamed: 0'', Some '' Practice Id ''), (None, None), (Some ''Rate'', Some ''Stroke''), (None, Some ''Practice Id'')]
     = [''Practice Id'', [], ''Rate|Stroke'', ''Practice Id'']"
    by code_simp
  from collapse_headers_first_column_kept[where header_df = "[]" and s = "[]" and a = "[]"
      and b = "[]" and names = "[''Practice Id'', [], ''Rate|Stroke'', ''Practice Id'']"
      and p = "''Number of patients on register|''" and ns = "[]"]
  have k: "kept_positions [''Practice Id'', [], ''Rate|Stroke'', ''Practice Id''] =
      [i \<leftarrow> [0..<length [''Practice Id'', [], ''Rate|Stroke'', ''Practice Id'']].
          [''Practice Id'', [], ''Rate|Stroke'', ''Practice Id''] ! i
          \<notin> set (take i [''Practice Id'', [], ''Rate|Stroke'', ''Practice Id''])]"
    and s: "[] \<in> set [''Practice Id'', [], ''Rate|Stroke'', ''Practice Id''] \<longrightarrow>
      [] \<in> set (kept_names [''Practice Id'', [], ''Rate|Stroke'', ''Practice Id''])"
    by blast+
  have "[i \<leftarrow> [0..<length [''Practice Id'', [], ''Rate|Stroke'', ''Practice Id'']].
          [''Practice Id'', [], ''Rate|Stroke'', ''Practice Id''] ! i
          \<notin> set (take i [''Practice Id'', [], ''Rate|Stroke'', ''Practice Id''])] = [0, 1, 2]"
    by code_simp
  with c k s show ?thesis by simp
qed

text \<open>
  A sheet whose first column has two empty header cells: the column keeps its place
  under the empty key.
\<close>

theorem empty_key_column_kept_counterexample:
  "collapse_headers [(None, None), (None, Some ''Practice Id'')] = [[], ''Practice Id'']
   \<and> kept_positions [[], ''Practice Id''] = [0, 1]
   \<and> kept_names [[], ''Practice Id''] = [[], ''Practice Id'']"
  by code_simp

section \<open>Properties of the run of the script\<close>

lemma line_87_not_read: "unrecognized_escape patient_literal"
  by code_simp

lemma precompute_stops:
  "precompute df = (if ''Practice Id'' \<in> set (col_names df) then Inl UnrecognizedEscape
                    else Inl ObjectNotFound)"
  by (simp add: precompute_def line_87_not_read)

lemma stroke_table_names:
  "col_names (stroke_table rows)
     = [''Practice Id'', ''Practice List Size'', ''Number of patients on register|Stroke'']"
proof -
  have "kept_names
          (collapse_headers
             [(None, Some ''Practice Id''), (None, Some ''Practice List Size''),
              (Some ''Number of patients on register'', Some ''Stroke'')])
        = [''Practice Id'', ''Practice List Size'', ''Number of patients on register|Stroke'']"
    by code_simp
  then show ?thesis by (simp add: col_names_def stroke_table_def)
qed

text \<open>
  Claim C1, on the sample sheet. The sheet has a column \<^verbatim>\<open>Practice Id\<close>, so the run
  gets to line 87. The pattern of that line writes the bar behind one backslash, an
  escape the parser of R does not know (the pattern of line 108 writes it behind two,
  which the parser reads), and the run ends there. \<^verbatim>\<open>total_patients\<close> of line 136 and
  \<^verbatim>\<open>per_practice\<close> of line 137 never get a value: the script gives no national total
  that could be the sum over the practices.
\<close>

theorem script_stops_before_totals:
  "''Practice Id'' \<in> set (col_names sample_table)
   \<and> unrecognized_escape patient_literal
   \<and> \<not> unrecognized_escape split_literal
   \<and> precompute sample_table = Inl UnrecognizedEscape"
proof -
  have c: "''Practice Id'' \<in> set (col_names sample_table)"
    by code_simp
  have a: "unrecognized_escape patient_literal"
    by code_simp
  have b: "\<not> unrecognized_escape split_literal"
    by code_simp
  from c a have "precompute sample_table = Inl UnrecognizedEscape"
    by (simp add: precompute_def)
  with c a b show ?thesis by blast
qed

text \<open>
  Claim C2, on a sheet with one register, where the first practice has 30 patients and
  the second none. The run ends at line 87, before the loop of lines 139 to 159 that
  would store the first practice and leave the second out.
\<close>

theorem script_stops_before_entries:
  "col_names
     (stroke_table
        [data_row_of (Some ''P1'') [(''Number of patients on register|Stroke'', 30)],
         data_row_of (Some ''P2'') [(''Number of patients on register|Stroke'', 0)]])
     = [''Practice Id'', ''Practice List Size'', ''Number of patients on register|Stroke'']
   \<and> precompute
       (stroke_table
          [data_row_of (Some ''P1'') [(''Number of patients on register|Stroke'', 30)],
           data_row_of (Some ''P2'') [(''Number of patients on register|Stroke'', 0)]])
     = Inl UnrecognizedEscape"
proof -
  have c: "col_names (stroke_table rows)
      = [''Practice Id'', ''Practice List Size'', ''Number of patients on register|Stroke'']"
    for rows
    by (rule stroke_table_names)
  have a: "unrecognized_escape patient_literal"
    by code_simp
  from c a have "precompute (stroke_table rows) = Inl UnrecognizedEscape" for rows
    by (simp add: precompute_def)
  with c show ?thesis by blast
qed

text \<open>
  Claim C5, on a sheet with one practice of list size 1000 and 40 stroke patients. The
  pattern of line 88 has the same escape as the one of line 87. The run ends at line
  87, before the population totals of lines 120 to 125 and the national rates of lines
  160 to 171: no rate, 40 per 1000 or other, is computed.
\<close>

theorem script_stops_before_rates:
  "unrecognized_escape prev_literal
   \<and> precompute
       (stroke_table
          [data_row_of (Some ''P1'')
             [(''Practice List Size'', 1000), (''Number of patients on register|Stroke'', 40)]])
     = Inl UnrecognizedEscape"
proof -
  have c: "''Practice Id'' \<in> set (col_names (stroke_table rows))" for rows
    by (simp add: stroke_table_names)
  have a: "unrecognized_escape patient_literal"
    by code_simp
  have b: "unrecognized_escape prev_literal"
    by code_simp
  from c a have "precompute (stroke_table rows) = Inl UnrecognizedEscape" for rows
    by (simp add: precompute_def)
  with b show ?thesis by blast
qed

text \<open>
  Claim C9, for every sheet. The run ends with an error before line 89, at the latest
  at line 87, whose literal the parser does not read. So it never gets to
  \<^verbatim>\<open>write_json\<close> at line 224: no document is written, with or without consistent
  keys.
\<close>

theorem script_writes_no_document:
  "\<exists>e. precompute df = Inl e"
  by (simp add: precompute_stops)

section \<open>Properties of the data join\<close>

lemma mset_insert_before:
  "mset (insert_before e following rows) = add_mset (e, False) (mset rows)"
  by (induction e following rows rule: insert_before.induct) simp_all

lemma mset_foldl_insert_before:
  "mset (foldl (\<lambda>rows (e, following). insert_before e following rows) rows es) =
   mset rows + mset (map (\<lambda>p. (fst p, False)) es)"
  by (induction es arbitrary: rows) (simp_all add: mset_insert_before case_prod_beta)

lemma bind_data_fst: "map fst (bind_data nodes data) = data"
  by (induction data arbitrary: nodes) simp_all

lemma enter_nodes_fst: "map fst (enter_nodes bound) = map fst [p \<leftarrow> bound. \<not> snd p]"
  by (induction bound rule: enter_nodes.induct) simp_all

lemma mset_joined_entering:
  "mset (map fst (filter snd bound)) + mset (map fst [p \<leftarrow> bound. \<not> snd p]) = mset (map fst bound)"
  by (induction bound) simp_all

lemma bind_data_joined_key:
  "(d, True) \<in> set (bind_data nodes data) \<Longrightarrow> feature_id d \<in> set nodes"
proof (induction data arbitrary: nodes)
  case Nil
  then show ?case by simp
next
  case (Cons x xs)
  show ?case
  proof (cases "feature_id x \<in> set nodes")
    case True
    with Cons.prems have "d = x \<or> (d, True) \<in> set (bind_data (removeAll (feature_id x) nodes) xs)"
      by simp
    then show ?thesis
    proof
      assume "d = x"
      with True show ?thesis by simp
    next
      assume "(d, True) \<in> set (bind_data (removeAll (feature_id x) nodes) xs)"
      from Cons.IH[OF this] show ?thesis by simp
    qed
  next
    case False
    with Cons.prems have "(d, True) \<in> set (bind_data nodes xs)" by simp
    from Cons.IH[OF this] show ?thesis .
  qed
qed

lemma joined_keys:
  "u \<in> set (map fst (filter snd (bind_data nodes data))) \<Longrightarrow> feature_id u \<in> set nodes"
proof -
  assume "u \<in> set (map fst (filter snd (bind_data nodes data)))"
  then obtain j where "(u, j) \<in> set (bind_data nodes data)" "j" by auto
  then have "(u, True) \<in> set (bind_data nodes data)" by simp
  then show ?thesis by (rule bind_data_joined_key)
qed

lemma bind_data_joined_distinct:
  "distinct (map feature_id (map fst (filter snd (bind_data nodes data))))"
proof (induction data arbitrary: nodes)
  case Nil
  then show ?case by simp
next
  case (Cons x xs)
  show ?case
  proof (cases "feature_id x \<in> set nodes")
    case True
    have "feature_id x \<noteq> feature_id u"
      if "u \<in> set (map fst (filter snd (bind_data (removeAll (feature_id x) nodes) xs)))" for u
      using joined_keys[OF that] by auto
    then have "feature_id x \<notin> set (map feature_id (map fst (filter snd (bind_data (removeAll (feature_id x) nodes) xs))))"
      by (auto simp del: map_map)
    with True Cons.IH[of "removeAll (feature_id x) nodes"] show ?thesis by simp
  next
    case False
    with Cons.IH[of nodes] show ?thesis by simp
  qed
qed

lemma find_joined:
  "map_option fst (find (\<lambda>(d, joined). joined \<and> feature_id d = k) bound) =
   find (\<lambda>u. feature_id u = k) (map fst (filter snd bound))"
proof (induction bound)
  case Nil
  then show ?case by simp
next
  case (Cons p bound)
  obtain d j where p: "p = (d, j)" by (cases p)
  from Cons show ?case by (simp add: p)
qed

lemma filter_key_find:
  "distinct (map feature_id us) \<Longrightarrow>
   filter (\<lambda>u. feature_id u = k) us =
     (case find (\<lambda>u. feature_id u = k) us of None \<Rightarrow> [] | Some u \<Rightarrow> [u])"
proof (induction us)
  case Nil
  then show ?case by simp
next
  case (Cons u us)
  show ?case
  proof (cases "feature_id u = k")
    case True
    with Cons.prems have "\<forall>v\<in>set us. feature_id v \<noteq> k" by (auto simp: image_iff)
    then have "filter (\<lambda>u. feature_id u = k) us = []" by (simp add: filter_empty_conv)
    with True show ?thesis by simp
  next
    case False
    with Cons show ?thesis by simp
  qed
qed

lemma mset_filter_first_key:
  "k \<notin> set seen \<Longrightarrow>
   mset [u \<leftarrow> us. feature_id u \<in> insert k ks - set seen] =
   mset [u \<leftarrow> us. feature_id u = k] + mset [u \<leftarrow> us. feature_id u \<in> ks - set (k # seen)]"
  by (induction us) auto

lemma mset_first_rows:
  assumes "distinct (map feature_id us)"
  shows "mset (List.map_filter
                 (\<lambda>(n, dup). if dup then None else find (\<lambda>u. feature_id u = feature_id n) us)
                 (zip nodes (duplicated_from seen (map feature_id nodes)))) =
         mset [u \<leftarrow> us. feature_id u \<in> feature_id ` set nodes - set seen]"
proof (induction nodes arbitrary: seen)
  case Nil
  then show ?case by simp
next
  case (Cons n ns)
  let ?k = "feature_id n"
  let ?f = "\<lambda>(n, dup). if dup then None else find (\<lambda>u. feature_id u = feature_id n) us"
  have ih: "mset (List.map_filter ?f (zip ns (duplicated_from (?k # seen) (map feature_id ns)))) =
        mset [u \<leftarrow> us. feature_id u \<in> feature_id ` set ns - set (?k # seen)]"
    by (rule Cons.IH)
  have img: "feature_id ` set (n # ns) = insert ?k (feature_id ` set ns)" by simp
  show ?case
  proof (cases "?k \<in> set seen")
    case True
    have "[u \<leftarrow> us. feature_id u \<in> feature_id ` set (n # ns) - set seen] =
          [u \<leftarrow> us. feature_id u \<in> feature_id ` set ns - set (?k # seen)]"
      using True by (intro filter_cong) auto
    with ih True show ?thesis by simp
  next
    case False
    note split = mset_filter_first_key[OF False, where us = us and ks = "feature_id ` set ns", folded img]
    show ?thesis
    proof (cases "find (\<lambda>u. feature_id u = ?k) us")
      case None
      with filter_key_find[OF assms, of ?k] have "[u \<leftarrow> us. feature_id u = ?k] = []" by simp
      with split ih False None show ?thesis by simp
    next
      case (Some u)
      with filter_key_find[OF assms, of ?k] have "[u \<leftarrow> us. feature_id u = ?k] = [u]" by simp
      with split ih False Some show ?thesis by simp
    qed
  qed
qed

lemma mset_update_nodes:
  "mset (update_nodes nodes (bind_data (map feature_id nodes) data)) =
   mset (map fst (filter snd (bind_data (map feature_id nodes) data)))"
proof -
  let ?bound = "bind_data (map feature_id nodes) data"
  let ?us = "map fst (filter snd ?bound)"
  have d: "distinct (map feature_id ?us)"
    by (rule bind_data_joined_distinct)
  have "update_nodes nodes ?bound =
        List.map_filter
          (\<lambda>(n, dup). if dup then None else find (\<lambda>u. feature_id u = feature_id n) ?us)
          (zip nodes (duplicated_from [] (map feature_id nodes)))"
    by (simp only: update_nodes_def duplicated_def find_joined)
  then have "mset (update_nodes nodes ?bound) =
        mset [u \<leftarrow> ?us. feature_id u \<in> feature_id ` set nodes - set []]"
    by (simp only: mset_first_rows[OF d])
  also have "[u \<leftarrow> ?us. feature_id u \<in> feature_id ` set nodes - set []] = ?us"
  proof (rule filter_True, rule ballI)
    fix u assume "u \<in> set ?us"
    from joined_keys[OF this] show "feature_id u \<in> feature_id ` set nodes - set []" by simp
  qed
  finally show ?thesis .
qed

lemma mset_data_join: "mset (data_join nodes data) = mset data"
proof -
  let ?bound = "bind_data (map feature_id nodes) data"
  have "mset (data_join nodes data) =
        mset (update_nodes nodes ?bound) + mset (map fst (enter_nodes ?bound))"
    by (simp add: data_join_def Let_def mset_foldl_insert_before multiset.map_comp o_def)
  also have "\<dots> = mset (map fst (filter snd ?bound)) + mset (map fst [p \<leftarrow> ?bound. \<not> snd p])"
    by (simp only: mset_update_nodes enter_nodes_fst)
  also have "\<dots> = mset (map fst ?bound)"
    by (rule mset_joined_entering)
  also have "\<dots> = mset data"
    by (simp only: bind_data_fst)
  finally show ?thesis .
qed

lemma length_data_join: "length (data_join nodes data) = length data"
  using mset_data_join[of nodes data] by (metis size_mset)

lemma data_join_Nil: "data_join [] data = data"
proof -
  have b: "bind_data [] ds = map (\<lambda>d. (d, False)) ds" for ds
    by (induction ds) simp_all
  have n: "next_update (map (\<lambda>d. (d, False)) ds) = None" for ds :: "feature list"
    by (induction ds) simp_all
  have e: "enter_nodes (map (\<lambda>d. (d, False)) ds) = map (\<lambda>d. (d, None)) ds" for ds :: "feature list"
    by (induction ds) (simp_all add: n)
  have f: "foldl (\<lambda>rows (e, following). insert_before e following rows) rows (map (\<lambda>d. (d, None)) ds)
           = rows @ map (\<lambda>d. (d, False)) ds" for rows ds
    by (induction ds arbitrary: rows) simp_all
  show ?thesis
    by (simp add: data_join_def update_nodes_def duplicated_def b e f o_def)
qed

section \<open>Properties of the dashboard\<close>

lemma mset_insert_by: "mset (insert_by cmp x ys) = add_mset x (mset ys)"
  by (induction ys) simp_all

lemma set_insert_by: "set (insert_by cmp x ys) = insert x (set ys)"
  by (induction ys) auto

lemma sorted_insert_by:
  "sorted_wrt (\<lambda>a b. key b \<le> key a) ys \<Longrightarrow>
   sorted_wrt (\<lambda>a b. key b \<le> (key a :: int)) (insert_by (\<lambda>a b. d3_descending (key a) (key b)) x ys)"
  by (induction ys) (auto simp: set_insert_by d3_descending_def split: if_splits)

lemma filter_insert_by_other:
  "key x \<noteq> k \<Longrightarrow>
   filter (\<lambda>y. key y = k) (insert_by cmp x ys) = filter (\<lambda>y. key y = k) ys"
  by (induction ys) simp_all

lemma filter_insert_by_same:
  "key x = k \<Longrightarrow>
   filter (\<lambda>y. key y = k) (insert_by (\<lambda>a b. d3_descending (key a) (key b)) x ys) =
   x # filter (\<lambda>y. key y = k) ys"
  by (induction ys) (auto simp: d3_descending_def split: if_splits)

text \<open>
  The sorted list: it has the same features, no feature has more patients than one
  before it, and the features with one number of patients keep the order they had.
\<close>

lemma array_sort_descending_stable:
  "mset (array_sort (\<lambda>a b. d3_descending (feature_patients a) (feature_patients b)) features)
     = mset features
   \<and> sorted_wrt (\<lambda>a b. feature_patients b \<le> feature_patients a)
       (array_sort (\<lambda>a b. d3_descending (feature_patients a) (feature_patients b)) features)
   \<and> (\<forall>k. filter (\<lambda>f. feature_patients f = k)
            (array_sort (\<lambda>a b. d3_descending (feature_patients a) (feature_patients b)) features)
          = filter (\<lambda>f. feature_patients f = k) features)"
proof -
  let ?cmp = "\<lambda>a b. d3_descending (feature_patients a) (feature_patients b)"
  have m: "mset (array_sort ?cmp features) = mset features"
    by (induction features) (simp_all add: array_sort_def mset_insert_by)
  have s: "sorted_wrt (\<lambda>a b. feature_patients b \<le> feature_patients a) (array_sort ?cmp features)"
    by (induction features) (simp_all add: array_sort_def sorted_insert_by)
  have f: "filter (\<lambda>f. feature_patients f = k) (array_sort ?cmp features)
          = filter (\<lambda>f. feature_patients f = k) features" for k
  proof (induction features)
    case Nil
    then show ?case by (simp add: array_sort_def)
  next
    case (Cons x xs)
    show ?case
    proof (cases "feature_patients x = k")
      case True
      from filter_insert_by_same[of feature_patients x k "array_sort ?cmp xs", OF True] Cons True
      show ?thesis by (simp add: array_sort_def)
    next
      case False
      from filter_insert_by_other[of feature_patients x k ?cmp "array_sort ?cmp xs", OF False] Cons False
      show ?thesis by (simp add: array_sort_def)
    qed
  qed
  from m s f show ?thesis by blast
qed

lemma totalPages_div: "totalPages d = (int (length (currentTableData d)) + 9) div 10"
proof -
  have "totalPages d = \<lceil>(of_int (int (length (currentTableData d))) :: rat) / of_int 10\<rceil>"
    by (simp add: totalPages_def pageSize_def)
  also have "\<dots> = - (- int (length (currentTableData d)) div 10)"
    by (rule ceiling_divide_eq_div)
  also have "\<dots> = (int (length (currentTableData d)) + 9) div 10"
    by presburger
  finally show ?thesis .
qed

lemma totalPages_nonneg: "0 \<le> totalPages d"
  by (simp add: totalPages_div)

lemma array_slice_page:
  assumes "0 \<le> s" "0 \<le> n"
  shows "array_slice xs s (s + n) = take (nat n) (drop (nat s) xs)"
proof (cases "s \<le> int (length xs)")
  case True
  have m: "nat (min (s + n) (int (length xs)) - s) = min (nat n) (length (drop (nat s) xs))"
    using assms True by (simp add: min_def) linarith
  have t: "take (min (nat n) (length ys)) ys = take (nat n) ys" for ys :: "'a list"
    by (simp add: min_def)
  have "array_slice xs s (s + n) =
        take (nat (min (s + n) (int (length xs)) - s)) (drop (nat s) xs)"
    using assms True by (simp add: array_slice_def Let_def min_absorb1)
  also have "\<dots> = take (min (nat n) (length (drop (nat s) xs))) (drop (nat s) xs)"
    by (simp only: m)
  also have "\<dots> = take (nat n) (drop (nat s) xs)"
    by (rule t)
  finally show ?thesis .
next
  case False
  then have "drop (nat s) xs = []" by simp
  then show ?thesis using assms False
    by (simp add: array_slice_def Let_def min_def)
qed

lemma updateTable_rows:
  assumes "1 \<le> currentPage d"
  shows "mset (tbody (updateTable d)) =
         mset (take 10 (drop (nat ((currentPage d - 1) * 10)) (currentTableData d)))"
  using array_slice_page[of "(currentPage d - 1) * 10" 10 "currentTableData d"] assms
  by (simp add: updateTable_def pageSize_def Let_def mset_data_join)

lemma updateTable_fields [simp]:
  "currentPage (updateTable d) = currentPage d"
  "currentTableData (updateTable d) = currentTableData d"
  "pagination (updateTable d) = pagination d"
  "change_listener (updateTable d) = change_listener d"
  "totalPages (updateTable d) = totalPages d"
  by (simp_all add: updateTable_def totalPages_def Let_def)

lemma renderPagination_fields [simp]:
  "currentPage (renderPagination d) = currentPage d"
  "currentTableData (renderPagination d) = currentTableData d"
  "tbody (renderPagination d) = tbody d"
  "change_listener (renderPagination d) = change_listener d"
  "totalPages (renderPagination d) = totalPages d"
  by (simp_all add: renderPagination_def totalPages_def)

lemma totalPages_currentPage [simp]: "totalPages (d\<lparr>currentPage := p\<rparr>) = totalPages d"
  by (simp add: totalPages_def)

lemma renderPagination_controls:
  "pagination (renderPagination d) =
     (if totalPages d \<le> 1 then []
      else Prev (currentPage d = 1)
           # map (\<lambda>p. PageNumber p (p = currentPage d)) [1..totalPages d]
           @ [Next (currentPage d = totalPages d) (totalPages d)])"
  by (simp add: renderPagination_def)

lemma currentTableData_sorted:
  assumes "updateDashboard data cond d = Inr d'"
  shows "\<exists>features. derive_features data cond = Inr features
           \<and> mset (currentTableData d') = mset features
           \<and> sorted_wrt (\<lambda>a b. feature_patients b \<le> feature_patients a) (currentTableData d')
           \<and> (\<forall>k. filter (\<lambda>f. feature_patients f = k) (currentTableData d')
                  = filter (\<lambda>f. feature_patients f = k) features)"
proof -
  from assms obtain features where f: "derive_features data cond = Inr features"
    and d': "d' = renderPagination (updateTable
           (d\<lparr>currentTableData :=
                array_sort (\<lambda>a b. d3_descending (feature_patients a) (feature_patients b)) features,
              currentPage := 1\<rparr>))"
    by (auto simp: updateDashboard_def split: option.splits sum.splits)
  have "currentTableData d' =
        array_sort (\<lambda>a b. d3_descending (feature_patients a) (feature_patients b)) features"
    by (simp add: d')
  with f array_sort_descending_stable[of features] show ?thesis by simp
qed

lemma cursor_in_range_initial: "cursor_in_range initial \<and> controls_in_range initial"
  by (simp add: cursor_in_range_def controls_in_range_def initial_def)

lemma renderPagination_in_range: "controls_in_range (renderPagination d)"
  by (simp add: controls_in_range_def renderPagination_controls list_all_iff)

lemma cursor_in_range_render [simp]:
  "cursor_in_range (renderPagination (updateTable d)) = cursor_in_range d"
  by (simp add: cursor_in_range_def)

lemma on_click_in_range:
  assumes "cursor_in_range d" "controls_in_range d" "c \<in> set (pagination d)"
  shows "cursor_in_range (on_click c d) \<and> controls_in_range (on_click c d)"
proof (cases c)
  case (Prev b)
  show ?thesis
  proof (cases "1 < currentPage d")
    case True
    then have "cursor_in_range (d\<lparr>currentPage := currentPage d - 1\<rparr>)"
      using assms(1) by (simp add: cursor_in_range_def)
    then show ?thesis using Prev True by (simp add: renderPagination_in_range)
  next
    case False
    then show ?thesis using Prev assms by simp
  qed
next
  case (PageNumber p a)
  with assms(2,3) have "1 \<le> p \<and> p \<le> totalPages d"
    by (auto simp: controls_in_range_def list_all_iff)
  then have "cursor_in_range (d\<lparr>currentPage := p\<rparr>)"
    by (simp add: cursor_in_range_def)
  then show ?thesis using PageNumber by (simp add: renderPagination_in_range)
next
  case (Next b t)
  with assms(2,3) have t: "t = totalPages d"
    by (auto simp: controls_in_range_def list_all_iff)
  show ?thesis
  proof (cases "currentPage d < t")
    case True
    then have "cursor_in_range (d\<lparr>currentPage := currentPage d + 1\<rparr>)"
      using assms(1) t by (simp add: cursor_in_range_def)
    then show ?thesis using Next True by (simp add: renderPagination_in_range)
  next
    case False
    then show ?thesis using Next assms by simp
  qed
qed

lemma updateDashboard_Inr:
  assumes "updateDashboard data cond d = Inr d'"
  shows "currentPage d' = 1" "cursor_in_range d'" "controls_in_range d'"
    "change_listener d' = change_listener d"
proof -
  from assms obtain features where
    d': "d' = renderPagination (updateTable
           (d\<lparr>currentTableData :=
                array_sort (\<lambda>a b. d3_descending (feature_patients a) (feature_patients b)) features,
              currentPage := 1\<rparr>))"
    by (auto simp: updateDashboard_def split: option.splits sum.splits)
  show "currentPage d' = 1" by (simp add: d')
  show "cursor_in_range d'" by (simp add: d' cursor_in_range_def)
  show "controls_in_range d'" by (simp add: d' renderPagination_in_range)
  show "change_listener d' = change_listener d" by (simp add: d')
qed

lemma totalPages_listener [simp]: "totalPages (d\<lparr>change_listener := b\<rparr>) = totalPages d"
  by (simp add: totalPages_def)

lemma load_in_range: "cursor_in_range (load data) \<and> controls_in_range (load data)"
proof (cases "updateDashboard data (case conditions data of [] \<Rightarrow> ''undefined'' | c # x \<Rightarrow> c) initial")
  case (Inl e)
  then show ?thesis by (simp add: load_def cursor_in_range_initial)
next
  case (Inr d)
  from updateDashboard_Inr(2,3)[OF Inr] have "cursor_in_range d" "controls_in_range d" .
  note r = this
  have tp: "totalPages (d\<lparr>change_listener := True\<rparr>) = totalPages d" by simp
  have "cursor_in_range (d\<lparr>change_listener := True\<rparr>)"
    using r(1) by (simp add: cursor_in_range_def)
  moreover have "controls_in_range (d\<lparr>change_listener := True\<rparr>)"
    using r(2) unfolding controls_in_range_def tp by simp
  ultimately have "cursor_in_range (d\<lparr>change_listener := True\<rparr>)
      \<and> controls_in_range (d\<lparr>change_listener := True\<rparr>)" by blast
  with Inr show ?thesis by (simp add: load_def)
qed

lemma handle_in_range:
  assumes "cursor_in_range d \<and> controls_in_range d"
  shows "cursor_in_range (handle data d e) \<and> controls_in_range (handle data d e)"
proof (cases e)
  case (Change cond)
  show ?thesis
  proof (cases "updateDashboard data cond d")
    case (Inl err)
    with Change assms show ?thesis by simp
  next
    case (Inr d')
    from updateDashboard_Inr(2,3)[OF Inr] Change Inr assms show ?thesis by simp
  qed
next
  case (Click c)
  with assms on_click_in_range[of d c] show ?thesis by simp
qed

lemma foldl_handle_in_range:
  "cursor_in_range d \<and> controls_in_range d \<Longrightarrow>
   cursor_in_range (foldl (handle data) d events) \<and> controls_in_range (foldl (handle data) d events)"
proof (induction events arbitrary: d)
  case Nil
  then show ?case by simp
next
  case (Cons e events)
  from Cons.IH[OF handle_in_range[OF Cons.prems]] show ?case by simp
qed

lemma on_click_data: "currentTableData (on_click c d) = currentTableData d"
  by (cases c) simp_all

lemma run_in_range: "cursor_in_range (run data events) \<and> controls_in_range (run data events)"
  using foldl_handle_in_range[OF load_in_range, where events = events and data = data]
  by (simp add: run_def)

lemma on_screen_render:
  "1 \<le> currentPage d \<Longrightarrow> on_screen (renderPagination (updateTable d))"
  by (simp add: on_screen_def renderPagination_controls updateTable_rows)

lemma on_screen_initial: "on_screen initial"
  by (simp add: on_screen_def initial_def totalPages_div)

lemma on_screen_listener [simp]: "on_screen (d\<lparr>change_listener := b\<rparr>) = on_screen d"
  by (simp add: on_screen_def)

lemma updateDashboard_on_screen:
  assumes "updateDashboard data cond d = Inr d'"
  shows "on_screen d'"
proof -
  from assms obtain features where
    d': "d' = renderPagination (updateTable
           (d\<lparr>currentTableData :=
                array_sort (\<lambda>a b. d3_descending (feature_patients a) (feature_patients b)) features,
              currentPage := 1\<rparr>))"
    by (auto simp: updateDashboard_def split: option.splits sum.splits)
  show ?thesis unfolding d' by (rule on_screen_render) simp
qed

lemma load_on_screen: "on_screen (load data)"
proof (cases "updateDashboard data (case conditions data of [] \<Rightarrow> ''undefined'' | c # x \<Rightarrow> c) initial")
  case (Inl e)
  then show ?thesis by (simp add: load_def on_screen_initial)
next
  case (Inr d)
  from updateDashboard_on_screen[OF Inr] Inr show ?thesis by (simp add: load_def)
qed

lemma on_click_on_screen:
  assumes "cursor_in_range d" "controls_in_range d" "on_screen d" "c \<in> set (pagination d)"
  shows "on_screen (on_click c d)"
proof (cases c)
  case (Prev b)
  show ?thesis
  proof (cases "1 < currentPage d")
    case True
    then have "on_screen (renderPagination (updateTable (d\<lparr>currentPage := currentPage d - 1\<rparr>)))"
      by (intro on_screen_render) simp
    with Prev True show ?thesis by simp
  next
    case False
    with Prev assms(3) show ?thesis by simp
  qed
next
  case (PageNumber p a)
  with assms(2,4) have "1 \<le> p"
    by (auto simp: controls_in_range_def list_all_iff)
  then have "on_screen (renderPagination (updateTable (d\<lparr>currentPage := p\<rparr>)))"
    by (intro on_screen_render) simp
  with PageNumber show ?thesis by simp
next
  case (Next b t)
  show ?thesis
  proof (cases "currentPage d < t")
    case True
    from assms(1) have "1 \<le> currentPage d + 1" by (simp add: cursor_in_range_def)
    then have "on_screen (renderPagination (updateTable (d\<lparr>currentPage := currentPage d + 1\<rparr>)))"
      by (intro on_screen_render) simp
    with Next True show ?thesis by simp
  next
    case False
    with Next assms(3) show ?thesis by simp
  qed
qed

lemma handle_on_screen:
  assumes "cursor_in_range d \<and> controls_in_range d" "on_screen d"
  shows "on_screen (handle data d e)"
proof (cases e)
  case (Change cond)
  show ?thesis
  proof (cases "updateDashboard data cond d")
    case (Inl err)
    with Change assms show ?thesis by simp
  next
    case (Inr d')
    from updateDashboard_on_screen[OF Inr] Change Inr assms show ?thesis by simp
  qed
next
  case (Click c)
  with assms on_click_on_screen[of d c] show ?thesis by simp
qed

lemma foldl_handle_on_screen:
  "cursor_in_range d \<and> controls_in_range d \<Longrightarrow> on_screen d \<Longrightarrow>
   on_screen (foldl (handle data) d events)"
proof (induction events arbitrary: d)
  case Nil
  then show ?case by simp
next
  case (Cons e events)
  from Cons.IH[OF handle_in_range[OF Cons.prems(1)] handle_on_screen[OF Cons.prems]]
  show ?case by simp
qed

lemma run_on_screen: "on_screen (run data events)"
  using foldl_handle_on_screen[OF load_in_range load_on_screen, where events = events and data = data]
  by (simp add: run_def)

text \<open>
  Claim C8. After the load and after any sequence of events the page shows the state.
  The page size is 10 and the number of pages is the number of rows divided by 10 and
  rounded up. With at most one page the pagination container is empty; with more it
  holds Prev, disabled exactly on page 1, the page numbers from 1 to the last page and
  Next, disabled exactly on the last page. The table body holds exactly the rows of the
  current page \<open>p\<close>, the ten rows from row \<open>10 (p - 1)\<close> on, whatever their order on
  the screen. A click on Prev on page 1 or on
  Next on the last page leaves the state as it is; inside the range they move by one
  page, and a page number moves to its page; the state after such a click is again a
  state after a sequence of events, so the page shows it. With 23 rows there are 3 pages,
  and after a click on page number 3 the table body has 3 rows.
\<close>

theorem pagination_on_screen:
  "pageSize = 10
   \<and> totalPages (run data events) = (int (length (currentTableData (run data events))) + 9) div 10
   \<and> pagination (run data events) =
       (if totalPages (run data events) \<le> 1 then []
        else Prev (currentPage (run data events) = 1)
             # map (\<lambda>q. PageNumber q (q = currentPage (run data events)))
                 [1..totalPages (run data events)]
             @ [Next (currentPage (run data events) = totalPages (run data events))
                  (totalPages (run data events))])
   \<and> mset (tbody (run data events)) =
       mset (take 10 (drop (nat ((currentPage (run data events) - 1) * 10))
                        (currentTableData (run data events))))
   \<and> (currentPage (run data events) = 1 \<longrightarrow>
        handle data (run data events) (Click (Prev b)) = run data events)
   \<and> (currentPage (run data events) = totalPages (run data events) \<longrightarrow>
        handle data (run data events) (Click (Next b (totalPages (run data events))))
          = run data events)
   \<and> (1 < currentPage (run data events) \<longrightarrow>
        currentPage (handle data (run data events) (Click (Prev False)))
          = currentPage (run data events) - 1)
   \<and> (currentPage (run data events) < totalPages (run data events) \<longrightarrow>
        currentPage (handle data (run data events)
                       (Click (Next False (totalPages (run data events)))))
          = currentPage (run data events) + 1)
   \<and> (1 \<le> p \<and> p \<le> totalPages (run data events) \<and> 1 < totalPages (run data events) \<longrightarrow>
        currentPage (handle data (run data events)
                       (Click (PageNumber p (p = currentPage (run data events))))) = p)
   \<and> (length (currentTableData (run data events)) = 23 \<longrightarrow>
        totalPages (run data events) = 3
        \<and> length (tbody (handle data (run data events)
                            (Click (PageNumber 3 (3 = currentPage (run data events)))))) = 3)"
proof -
  define d where "d = run data events"
  have range: "cursor_in_range d" "controls_in_range d"
    using run_in_range[of data events] by (simp_all add: d_def)
  have shown: "on_screen d"
    using run_on_screen[of data events] by (simp add: d_def)
  have cp: "1 \<le> currentPage d" "currentPage d \<le> max (totalPages d) 1"
    using range(1) by (simp_all add: cursor_in_range_def)
  have pg: "pagination d =
       (if totalPages d \<le> 1 then []
        else Prev (currentPage d = 1)
             # map (\<lambda>q. PageNumber q (q = currentPage d)) [1..totalPages d]
             @ [Next (currentPage d = totalPages d) (totalPages d)])"
    and rows: "mset (tbody d) =
       mset (take 10 (drop (nat ((currentPage d - 1) * 10)) (currentTableData d)))"
    using shown by (simp_all add: on_screen_def)
  have a: "pageSize = 10" by (simp add: pageSize_def)
  note b = totalPages_div[of d]
  have e: "currentPage d = 1 \<longrightarrow> handle data d (Click (Prev b)) = d"
    by simp
  have f: "currentPage d = totalPages d \<longrightarrow> handle data d (Click (Next b (totalPages d))) = d"
    by simp
  have g: "1 < currentPage d \<longrightarrow>
        currentPage (handle data d (Click (Prev False))) = currentPage d - 1"
  proof
    assume m: "1 < currentPage d"
    with cp(2) have "1 < totalPages d" by simp
    with m pg have "Prev False \<in> set (pagination d)" by simp
    with m show "currentPage (handle data d (Click (Prev False))) = currentPage d - 1"
      by simp
  qed
  have h: "currentPage d < totalPages d \<longrightarrow>
        currentPage (handle data d (Click (Next False (totalPages d)))) = currentPage d + 1"
  proof
    assume m: "currentPage d < totalPages d"
    with cp(1) have "1 < totalPages d" by simp
    with m pg have "Next False (totalPages d) \<in> set (pagination d)" by simp
    with m show "currentPage (handle data d (Click (Next False (totalPages d)))) = currentPage d + 1"
      by simp
  qed
  have i: "1 \<le> p \<and> p \<le> totalPages d \<and> 1 < totalPages d \<longrightarrow>
        currentPage (handle data d (Click (PageNumber p (p = currentPage d)))) = p"
  proof
    assume m: "1 \<le> p \<and> p \<le> totalPages d \<and> 1 < totalPages d"
    with pg have "PageNumber p (p = currentPage d) \<in> set (pagination d)" by simp
    then show "currentPage (handle data d (Click (PageNumber p (p = currentPage d)))) = p"
      by simp
  qed
  have j: "length (currentTableData d) = 23 \<longrightarrow>
        totalPages d = 3
        \<and> length (tbody (handle data d (Click (PageNumber 3 (3 = currentPage d))))) = 3"
  proof
    assume n: "length (currentTableData d) = 23"
    then have t: "totalPages d = 3" by (simp add: totalPages_div)
    have "PageNumber 3 (3 = currentPage d)
          \<in> (\<lambda>q. PageNumber q (q = currentPage d)) ` set [1..3]"
      by (rule image_eqI[where x = 3]) simp_all
    with pg t have "PageNumber 3 (3 = currentPage d) \<in> set (pagination d)" by simp
    then have "tbody (handle data d (Click (PageNumber 3 (3 = currentPage d)))) =
          tbody (updateTable (d\<lparr>currentPage := 3\<rparr>))"
      by simp
    moreover have "mset (tbody (updateTable (d\<lparr>currentPage := 3\<rparr>))) =
          mset (take 10 (drop 20 (currentTableData d)))"
      using updateTable_rows[of "d\<lparr>currentPage := 3\<rparr>"] by simp
    then have "length (tbody (updateTable (d\<lparr>currentPage := 3\<rparr>))) =
          length (take 10 (drop 20 (currentTableData d)))"
      by (metis size_mset)
    ultimately show "totalPages d = 3
        \<and> length (tbody (handle data d (Click (PageNumber 3 (3 = currentPage d))))) = 3"
      using t n by simp
  qed
  from a b pg rows e f g h i j show ?thesis unfolding d_def by blast
qed

theorem pagination_on_screen_witness:
  "currentPage (run twenty_three_document [Click (Next False 3), Click (Next False 3)]) = 3
   \<and> totalPages (run twenty_three_document [Click (Next False 3), Click (Next False 3)]) = 3
   \<and> pagination (run twenty_three_document [Click (Next False 3), Click (Next False 3)]) =
       [Prev False, PageNumber 1 False, PageNumber 2 False, PageNumber 3 True, Next True 3]
   \<and> mset (tbody (run twenty_three_document [Click (Next False 3), Click (Next False 3)])) =
       mset (take 10 (drop 20
         (currentTableData (run twenty_three_document [Click (Next False 3), Click (Next False 3)]))))
   \<and> handle twenty_three_document
         (run twenty_three_document [Click (Next False 3), Click (Next False 3)])
         (Click (Next True 3))
       = run twenty_three_document [Click (Next False 3), Click (Next False 3)]
   \<and> currentPage
         (handle twenty_three_document
            (run twenty_three_document [Click (Next False 3), Click (Next False 3)])
            (Click (Prev False))) = 2
   \<and> length
         (tbody
            (handle twenty_three_document
               (run twenty_three_document [Click (Next False 3), Click (Next False 3)])
               (Click (PageNumber 3 True)))) = 3"
proof -
  have l: "length (currentTableData
             (run twenty_three_document [Click (Next False 3), Click (Next False 3)])) = 23"
    by code_simp
  have p: "currentPage (run twenty_three_document [Click (Next False 3), Click (Next False 3)]) = 3"
    by code_simp
  have u: "[1..3] = [1, 2, 3::int]"
    by code_simp
  from pagination_on_screen[where data = twenty_three_document
      and events = "[Click (Next False 3), Click (Next False 3)]" and b = True and p = 3] l p u
  show ?thesis by (simp del: handle.simps)
qed

text \<open>
  Claim C10. After the load and after any sequence of events, the current page is at
  least 1 and at most the number of pages, or 1 when there is no page. A successful
  \<^verbatim>\<open>updateDashboard\<close>, the only handler that changes the feature list, leaves the
  current page at 1; a click leaves the feature list as it is, and a click on a control
  of the page leaves the cursor in range.
\<close>

theorem current_page_in_range:
  "1 \<le> currentPage (run data events)
   \<and> currentPage (run data events) \<le> max (totalPages (run data events)) 1
   \<and> (updateDashboard data cond d = Inr d' \<longrightarrow> currentPage d' = 1)
   \<and> currentTableData (on_click c d) = currentTableData d
   \<and> (cursor_in_range d \<and> controls_in_range d \<and> c \<in> set (pagination d) \<longrightarrow>
        cursor_in_range (on_click c d))"
proof -
  from foldl_handle_in_range[OF load_in_range, where events = events and data = data]
  have "cursor_in_range (run data events)" by (simp add: run_def)
  then have "1 \<le> currentPage (run data events)"
    "currentPage (run data events) \<le> max (totalPages (run data events)) 1"
    by (simp_all add: cursor_in_range_def)
  moreover have "updateDashboard data cond d = Inr d' \<longrightarrow> currentPage d' = 1"
    using updateDashboard_Inr(1) by blast
  moreover note on_click_data[of c d]
  moreover have "cursor_in_range d \<and> controls_in_range d \<and> c \<in> set (pagination d) \<longrightarrow>
        cursor_in_range (on_click c d)"
    using on_click_in_range by blast
  ultimately show ?thesis by blast
qed

lemma twelve_load:
  "updateDashboard twelve_document ''Stroke'' initial =
   Inr ((load twelve_document)\<lparr>change_listener := False\<rparr>)"
  by code_simp

theorem current_page_in_range_witness:
  "currentPage ((load twelve_document)\<lparr>change_listener := False\<rparr>) = 1
   \<and> currentPage (run twelve_document [Click (Next False 2), Click (Next True 2)]) = 2
   \<and> currentPage (run twelve_document [Click (Next False 2), Click (Next True 2)])
       \<le> max (totalPages (run twelve_document [Click (Next False 2), Click (Next True 2)])) 1
   \<and> cursor_in_range (on_click (PageNumber 2 False) (load twelve_document))"
proof -
  have r: "currentPage (run twelve_document [Click (Next False 2), Click (Next True 2)]) = 2"
    by code_simp
  have i: "cursor_in_range (load twelve_document)" "controls_in_range (load twelve_document)"
    "PageNumber 2 False \<in> set (pagination (load twelve_document))"
    by code_simp+
  from current_page_in_range[where data = twelve_document
      and events = "[Click (Next False 2), Click (Next True 2)]"
      and cond = "''Stroke''" and d = initial
      and d' = "(load twelve_document)\<lparr>change_listener := False\<rparr>"]
    current_page_in_range[where data = twelve_document and events = "[]"
      and c = "PageNumber 2 False" and d = "load twelve_document"]
    twelve_load r i
  show ?thesis by simp
qed

text \<open>
  Claim C7, on a document with two conditions. \<^verbatim>\<open>updateDashboard\<close> sorts the features
  by the number of patients, largest first, and on the first load the table shows them
  in that order: A and B with 50 patients each, in the order they came, then C with
  30. After the change to the second condition the sorted list is C, B, A, but the
  three rows are update rows of the data join, which keep their places: the table shows
  A with 10 patients, then B with 20, then C with 30, the smallest number first. The
  script sorts the list and never puts the rows of the table in the order of the list.
\<close>

theorem table_rows_keep_former_place:
  "conditions two_condition_document = [''Asthma'', ''Stroke'']
   \<and> map (\<lambda>f. (feature_id f, feature_patients f))
       (currentTableData (load two_condition_document))
       = [(''A'', 50), (''B'', 50), (''C'', 30)]
   \<and> map (\<lambda>f. (feature_id f, feature_patients f)) (tbody (load two_condition_document))
       = [(''A'', 50), (''B'', 50), (''C'', 30)]
   \<and> map (\<lambda>f. (feature_id f, feature_patients f))
       (currentTableData (run two_condition_document [Change ''Stroke'']))
       = [(''C'', 30), (''B'', 20), (''A'', 10)]
   \<and> map (\<lambda>f. (feature_id f, feature_patients f))
       (tbody (run two_condition_document [Change ''Stroke'']))
       = [(''A'', 10), (''B'', 20), (''C'', 30)]"
  by code_simp

text \<open>
  Claim C6, on the sample document. The second practice stands in \<^verbatim>\<open>practice_info\<close>
  with both coordinates null. The unary plus reads null as zero, the test for
  \<^verbatim>\<open>NaN\<close> passes, and the practice is a feature at latitude 0 and longitude 0.
\<close>

theorem practice_without_coordinates_is_a_feature:
  "map_of (practice_info sample_document) ''P2''
       = Some \<lparr>name = Some ''Surgery Two'', latitude = None, longitude = None\<rparr>
   \<and> derive_features sample_document ''Diabetes''
       = Inr [\<lparr>feature_id = ''P1'', feature_name = Some ''Surgery One'',
               feature_latitude = Num (546 / 10), feature_longitude = Num (- 59 / 10),
               prevalence = None, prevalence50 = None, feature_patients = 100\<rparr>,
              \<lparr>feature_id = ''P2'', feature_name = Some ''Surgery Two'',
               feature_latitude = Num 0, feature_longitude = Num 0,
               prevalence = None, prevalence50 = None, feature_patients = 50\<rparr>]"
  by code_simp

end
